theory Spec2Isabelle
  imports Main "HOL-Library.Sublist"
begin

section \<open>Host-derived browser identity (getHostMachineConfig)\<close>

text \<open>
  The fingerprint record of the source (interface FingerprintConfig) and the host
  signals that getHostMachineConfig reads: the LANG environment variable, the value of
  Date.getTimezoneOffset (minutes, negative east of UTC), the local wall-clock hour of
  Date.getHours and os.platform.
\<close>

datatype colorScheme = Dark | Light
datatype reducedMotion = Reduce | NoPreference
datatype forcedColors = Active | NoForcedColors

record FingerprintConfig =
  deviceName :: string
  localeName :: string
  timezoneId :: string
  colorScheme :: colorScheme
  reducedMotion :: reducedMotion
  forcedColors :: forcedColors

record host =
  env_LANG :: "string option"
  getTimezoneOffset :: int
  getHours :: int
  os_platform :: string

text \<open>JavaScript's \<^verbatim>\<open>a || b\<close> on an optional string: undefined and the empty string are falsy.\<close>

fun js_or :: "string option \<Rightarrow> string \<Rightarrow> string" where
  "js_or None d = d"
| "js_or (Some s) d = (if s = [] then d else s)"

text \<open>
  The if / else-if chain of lines 37-59, in the source's order; the initial value
  Asia/Seoul is what remains when no branch fires.
\<close>

definition timezoneOfOffset :: "int \<Rightarrow> string" where
  "timezoneOfOffset timezoneOffset =
    (if timezoneOffset \<le> -480 \<and> timezoneOffset > -600 then ''Asia/Shanghai''
     else if timezoneOffset \<le> -540 then ''Asia/Seoul''
     else if timezoneOffset \<le> -420 \<and> timezoneOffset > -480 then ''Asia/Bangkok''
     else if timezoneOffset \<le> 0 \<and> timezoneOffset > -60 then ''Europe/London''
     else if timezoneOffset \<le> 60 \<and> timezoneOffset > 0 then ''Europe/Berlin''
     else if timezoneOffset \<le> 300 \<and> timezoneOffset > 240 then ''America/New_York''
     else ''Asia/Seoul'')"

text \<open>
  The six guards of that chain as an ordered table (range predicate, timezone), used to
  speak about which ranges an offset satisfies.
\<close>

definition timezoneRanges :: "((int \<Rightarrow> bool) \<times> string) list" where
  "timezoneRanges =
    [(\<lambda>t. t \<le> -480 \<and> t > -600, ''Asia/Shanghai''),
     (\<lambda>t. t \<le> -540, ''Asia/Seoul''),
     (\<lambda>t. t \<le> -420 \<and> t > -480, ''Asia/Bangkok''),
     (\<lambda>t. t \<le> 0 \<and> t > -60, ''Europe/London''),
     (\<lambda>t. t \<le> 60 \<and> t > 0, ''Europe/Berlin''),
     (\<lambda>t. t \<le> 300 \<and> t > 240, ''America/New_York'')]"

definition matchingRanges :: "int \<Rightarrow> string list" where
  "matchingRanges t = map snd (filter (\<lambda>r. fst r t) timezoneRanges)"

definition colorSchemeOfHour :: "int \<Rightarrow> colorScheme" where
  "colorSchemeOfHour hour = (if hour \<ge> 19 \<or> hour < 7 then Dark else Light)"

definition getHostMachineConfig :: "string option \<Rightarrow> host \<Rightarrow> FingerprintConfig" where
  "getHostMachineConfig userLocale hst =
    (let systemLocale = js_or userLocale (js_or (env_LANG hst) ''ko-KR'');
         tz = timezoneOfOffset (getTimezoneOffset hst);
         cs = colorSchemeOfHour (getHours hst);
         dev = (if os_platform hst = ''darwin'' then ''Desktop Safari''
                else if os_platform hst = ''win32'' then ''Desktop Edge''
                else if os_platform hst = ''linux'' then ''Desktop Firefox''
                else ''Desktop Chrome'');
         dev = ''Desktop Chrome''
     in \<lparr> deviceName = dev, localeName = systemLocale, timezoneId = tz, colorScheme = cs,
          reducedMotion = NoPreference, forcedColors = NoForcedColors \<rparr>)"

section \<open>Content extraction (the callback passed to page.evaluate)\<close>

text \<open>
  The callback runs inside the page and sees it only through DOM calls. The model takes
  the answers of those calls as a record of functions over node identifiers: the
  document-level and element-level selector queries, textContent (nullable in the
  TypeScript types), tagName, the instanceof HTMLAnchorElement test and the href
  property of an HTMLAnchorElement (a string by its interface). The chain of
  parentElement links of a node is a finite list, nearest ancestor first, since a DOM
  tree has no cycles.

  The selector \<^verbatim>\<open>a\<close> matches by local name, so querySelector('a') can also return the
  a element of an SVG image, which is no HTMLAnchorElement and whose href property is
  an SVGAnimatedString object, or an a element of some other namespace, which has no
  href property at all. instanceofSVGAElement tells the first kind.

  A JavaScript string is a sequence of UTF-16 code units. The model holds a string as
  the bytes of its UTF-8 encoding (as it does for the messages of the source), which
  every string without unpaired surrogates has. Equality, startsWith and includes give
  the same answers on the bytes as on the code units; trim and length are written out
  for the encoding below. maxResults is an integer.
\<close>

type_synonym node = nat

record dom =
  document_querySelectorAll :: "string \<Rightarrow> node list"
  querySelector :: "node \<Rightarrow> string \<Rightarrow> node option"
  querySelectorAll :: "node \<Rightarrow> string \<Rightarrow> node list"
  textContent :: "node \<Rightarrow> string option"
  tagName :: "node \<Rightarrow> string"
  instanceofHTMLAnchorElement :: "node \<Rightarrow> bool"
  instanceofSVGAElement :: "node \<Rightarrow> bool"
  href :: "node \<Rightarrow> string"
  parentChain :: "node \<Rightarrow> node list"

text \<open>
  What the expression \<^verbatim>\<open>x.href\<close> evaluates to for an element x found by the selector a:
  a string, an object, or undefined.
\<close>

datatype propertyValue = StringValue string | ObjectValue | UndefinedValue

definition hrefProperty :: "dom \<Rightarrow> node \<Rightarrow> propertyValue" where
  "hrefProperty d e =
    (if instanceofHTMLAnchorElement d e then StringValue (href d e)
     else if instanceofSVGAElement d e then ObjectValue
     else UndefinedValue)"

text \<open>An exception thrown inside the callback, with its message.\<close>

datatype pageError = TypeError string

record SearchResult =
  title :: string
  link :: string
  snippet :: string

record selectorSet =
  containerSel :: string
  titleSel :: string
  snippetSel :: string

definition selectorSets :: "selectorSet list" where
  \<open>selectorSets =
    [\<lparr> containerSel = ''#search div[data-hveid]'', titleSel = ''h3'', snippetSel = ''.VwiC3b'' \<rparr>,
     \<lparr> containerSel = ''#rso div[data-hveid]'', titleSel = ''h3'', snippetSel = ''[data-sncf="1"]'' \<rparr>,
     \<lparr> containerSel = ''.g'', titleSel = ''h3'', snippetSel = ''div[style*="webkit-line-clamp"]'' \<rparr>,
     \<lparr> containerSel = ''div[jscontroller][data-hveid]'', titleSel = ''h3'',
       snippetSel = ''div[role="text"]'' \<rparr>]\<close>

definition alternativeSnippetSelectors :: "string list" where
  \<open>alternativeSnippetSelectors =
    [''.VwiC3b'', ''[data-sncf="1"]'', ''div[style*="webkit-line-clamp"]'', ''div[role="text"]'']\<close>

definition anchorSelector :: string where
  \<open>anchorSelector = ''a[href^='http']''\<close>

subsection \<open>String helpers\<close>

text \<open>
  String.prototype.trim removes white space and line terminators at both ends. These
  are the code points U+0009 to U+000D, U+0020, U+00A0, U+1680, U+2000 to U+200A,
  U+2028, U+2029, U+202F, U+205F, U+3000 and U+FEFF; whiteSpaceCodes lists their UTF-8
  encodings.
\<close>

definition whiteSpaceCodes :: "string list" where
  "whiteSpaceCodes =
    [[CHR 0x09], [CHR 0x0A], [CHR 0x0B], [CHR 0x0C], [CHR 0x0D], [CHR 0x20],
     [CHR 0xC2, CHR 0xA0],
     [CHR 0xE1, CHR 0x9A, CHR 0x80],
     [CHR 0xE2, CHR 0x80, CHR 0x80], [CHR 0xE2, CHR 0x80, CHR 0x81],
     [CHR 0xE2, CHR 0x80, CHR 0x82], [CHR 0xE2, CHR 0x80, CHR 0x83],
     [CHR 0xE2, CHR 0x80, CHR 0x84], [CHR 0xE2, CHR 0x80, CHR 0x85],
     [CHR 0xE2, CHR 0x80, CHR 0x86], [CHR 0xE2, CHR 0x80, CHR 0x87],
     [CHR 0xE2, CHR 0x80, CHR 0x88], [CHR 0xE2, CHR 0x80, CHR 0x89],
     [CHR 0xE2, CHR 0x80, CHR 0x8A],
     [CHR 0xE2, CHR 0x80, CHR 0xA8], [CHR 0xE2, CHR 0x80, CHR 0xA9],
     [CHR 0xE2, CHR 0x80, CHR 0xAF],
     [CHR 0xE2, CHR 0x81, CHR 0x9F],
     [CHR 0xE3, CHR 0x80, CHR 0x80],
     [CHR 0xEF, CHR 0xBB, CHR 0xBF]]"

text \<open>
  dropCodes codes k s drops k bytes of s and then every leading occurrence of one of
  the codes. With the white-space codes it is trimStart; with the reversed codes on
  the reversed string it is trimEnd.
\<close>

fun dropCodes :: "string list \<Rightarrow> nat \<Rightarrow> string \<Rightarrow> string" where
  "dropCodes codes k [] = []"
| "dropCodes codes k (c # cs) =
    (if k > 0 then dropCodes codes (k - 1) cs
     else case find (\<lambda>w. prefix w (c # cs)) codes of
            None \<Rightarrow> c # cs
          | Some w \<Rightarrow> dropCodes codes (length w - 1) cs)"

definition trim :: "string \<Rightarrow> string" where
  "trim s = rev (dropCodes (map rev whiteSpaceCodes) 0 (rev (dropCodes whiteSpaceCodes 0 s)))"

text \<open>
  The length property counts UTF-16 code units: none for a continuation byte of the
  encoding, two for the first byte of a four-byte sequence (a code point above U+FFFF),
  one for every other byte.
\<close>

definition codeUnits :: "char \<Rightarrow> nat" where
  "codeUnits c =
    (if 128 \<le> (of_char c :: nat) \<and> (of_char c :: nat) < 192 then 0
     else if 240 \<le> (of_char c :: nat) then 2 else 1)"

definition js_length :: "string \<Rightarrow> nat" where
  "js_length s = sum_list (map codeUnits s)"

text \<open>\<^verbatim>\<open>(x.textContent || "").trim()\<close>\<close>

definition trimmedText :: "dom \<Rightarrow> node \<Rightarrow> string" where
  "trimmedText d e = trim (case textContent d e of None \<Rightarrow> [] | Some t \<Rightarrow> t)"

text \<open>String.prototype.includes: the pattern occurs as a contiguous substring.\<close>

fun js_includes :: "string \<Rightarrow> string \<Rightarrow> bool" where
  "js_includes [] pat = (pat = [])"
| "js_includes (c # cs) pat = (prefix pat (c # cs) \<or> js_includes cs pat)"

text \<open>String.prototype.startsWith.\<close>

definition startsWith :: "string \<Rightarrow> string \<Rightarrow> bool" where
  "startsWith s pat = prefix pat s"

text \<open>
  Array.prototype.slice(0, n) for an integer n: a negative end counts from the end of
  the array.
\<close>

definition slice0 :: "'a list \<Rightarrow> int \<Rightarrow> 'a list" where
  "slice0 xs n = (if n < 0 then take (nat (int (length xs) + n)) xs else take (nat n) xs)"

subsection \<open>Primary pass\<close>

text \<open>
  Link resolution (lines 828-845): the href of the a element inside the title element,
  else the href of the first node with tagName A on the walk from the title element up
  through its parents when it is an HTMLAnchorElement, else the href of the first a
  element inside the container, else the empty string the variable starts with. Only
  the second of these is behind an instanceof test.
\<close>

definition containerLinkOf :: "dom \<Rightarrow> node \<Rightarrow> propertyValue" where
  "containerLinkOf d container =
    (case querySelector d container ''a'' of
       None \<Rightarrow> StringValue []
     | Some containerLink \<Rightarrow> hrefProperty d containerLink)"

definition resolveLink :: "dom \<Rightarrow> node \<Rightarrow> node \<Rightarrow> propertyValue" where
  "resolveLink d container titleElement =
    (case querySelector d titleElement ''a'' of
       Some linkInTitle \<Rightarrow> hrefProperty d linkInTitle
     | None \<Rightarrow>
        (case find (\<lambda>e. tagName d e = ''A'') (titleElement # parentChain d titleElement) of
           Some current \<Rightarrow>
             if instanceofHTMLAnchorElement d current then StringValue (href d current)
             else containerLinkOf d container
         | None \<Rightarrow> containerLinkOf d container))"

text \<open>
  Snippet resolution (lines 851-875). The loop over the alternative selectors stops at
  the first selector that matches an element, whatever its text; the generic search
  over div descendants runs when the snippet is still empty.
\<close>

fun alternativeSnippet :: "dom \<Rightarrow> node \<Rightarrow> string list \<Rightarrow> string" where
  "alternativeSnippet d container [] = []"
| "alternativeSnippet d container (altSelector # rest) =
    (case querySelector d container altSelector of
       Some element \<Rightarrow> trimmedText d element
     | None \<Rightarrow> alternativeSnippet d container rest)"

definition genericSnippet :: "dom \<Rightarrow> node \<Rightarrow> string" where
  "genericSnippet d container =
    (let textNodes = filter (\<lambda>el. querySelector d el ''h3'' = None \<and> js_length (trimmedText d el) > 20)
                            (querySelectorAll d container ''div'')
     in case textNodes of [] \<Rightarrow> [] | el # _ \<Rightarrow> trimmedText d el)"

definition resolveSnippet :: "dom \<Rightarrow> selectorSet \<Rightarrow> node \<Rightarrow> string" where
  "resolveSnippet d selectors container =
    (case querySelector d container (snippetSel selectors) of
       Some snippetElement \<Rightarrow> trimmedText d snippetElement
     | None \<Rightarrow>
        (let snippet = alternativeSnippet d container alternativeSnippetSelectors
         in if snippet = [] then genericSnippet d container else snippet))"

text \<open>
  The accumulator of the callback: the results array and the seenUrls set. One
  container either leaves it unchanged (a continue of the source), appends one record
  and records its link, or throws: the test of line 848 is
  \<^verbatim>\<open>!link || !link.startsWith('http') || seenUrls.has(link)\<close>, so an undefined link is skipped
  and an object, which is truthy and has no startsWith method, makes the call throw a
  TypeError. The callback has no try statement.
\<close>

type_synonym acc = "SearchResult list \<times> string set"

definition startsWithMissing :: pageError where
  "startsWithMissing = TypeError ''link.startsWith is not a function''"

definition processContainer :: "dom \<Rightarrow> selectorSet \<Rightarrow> node \<Rightarrow> acc \<Rightarrow> pageError + acc" where
  "processContainer d selectors container a =
    (case querySelector d container (titleSel selectors) of
       None \<Rightarrow> Inr a
     | Some titleElement \<Rightarrow>
        (let title = trimmedText d titleElement
         in case resolveLink d container titleElement of
              UndefinedValue \<Rightarrow> Inr a
            | ObjectValue \<Rightarrow> Inl startsWithMissing
            | StringValue url \<Rightarrow>
               if url = [] \<or> \<not> startsWith url ''http'' \<or> url \<in> snd a then Inr a
               else
                 (let snippet = resolveSnippet d selectors container
                  in if title \<noteq> [] \<and> url \<noteq> []
                     then Inr (fst a @ [\<lparr> title = title, link = url, snippet = snippet \<rparr>],
                               insert url (snd a))
                     else Inr a)))"

fun containerLoop :: "dom \<Rightarrow> int \<Rightarrow> selectorSet \<Rightarrow> node list \<Rightarrow> acc \<Rightarrow> pageError + acc" where
  "containerLoop d maxResults selectors [] a = Inr a"
| "containerLoop d maxResults selectors (container # rest) a =
    (if int (length (fst a)) \<ge> maxResults then Inr a
     else case processContainer d selectors container a of
            Inl error \<Rightarrow> Inl error
          | Inr a' \<Rightarrow> containerLoop d maxResults selectors rest a')"

fun selectorLoop :: "dom \<Rightarrow> int \<Rightarrow> selectorSet list \<Rightarrow> acc \<Rightarrow> pageError + acc" where
  "selectorLoop d maxResults [] a = Inr a"
| "selectorLoop d maxResults (selectors # rest) a =
    (if int (length (fst a)) \<ge> maxResults then Inr a
     else case containerLoop d maxResults selectors
                 (document_querySelectorAll d (containerSel selectors)) a of
            Inl error \<Rightarrow> Inl error
          | Inr a' \<Rightarrow> selectorLoop d maxResults rest a')"

definition primaryPass :: "dom \<Rightarrow> int \<Rightarrow> pageError + acc" where
  "primaryPass d maxResults = selectorLoop d maxResults selectorSets ([], {})"

subsection \<open>Fallback pass\<close>

text \<open>
  The snippet of a fallback record (lines 905-915): the trimmed text of the first of
  at most three ancestors whose text is longer than 20 and differs from the title.
\<close>

definition ancestorSnippet :: "dom \<Rightarrow> node \<Rightarrow> string \<Rightarrow> string" where
  "ancestorSnippet d el titleText =
    (case find (\<lambda>text. js_length text > 20 \<and> text \<noteq> titleText)
               (map (trimmedText d) (take 3 (parentChain d el))) of
       None \<Rightarrow> [] | Some text \<Rightarrow> text)"

definition excludedLink :: "string \<Rightarrow> bool" where
  "excludedLink url =
    (js_includes url ''google.com/'' \<or> js_includes url ''accounts.google'' \<or>
     js_includes url ''support.google'')"

text \<open>
  The fallback loop (lines 886-920) reads href only behind its instanceof
  HTMLAnchorElement test, so the link is a string and nothing in the loop throws.
\<close>

fun fallbackLoop :: "dom \<Rightarrow> int \<Rightarrow> node list \<Rightarrow> acc \<Rightarrow> acc" where
  "fallbackLoop d maxResults [] a = a"
| "fallbackLoop d maxResults (el # rest) a =
    (if int (length (fst a)) \<ge> maxResults then a
     else if \<not> instanceofHTMLAnchorElement d el then fallbackLoop d maxResults rest a
     else
       (let link = href d el
        in if link = [] \<or> link \<in> snd a \<or> excludedLink link then fallbackLoop d maxResults rest a
           else
             (let title = trimmedText d el
              in if title = [] then fallbackLoop d maxResults rest a
                 else fallbackLoop d maxResults rest
                        (fst a @ [\<lparr> title = title, link = link,
                                   snippet = ancestorSnippet d el title \<rparr>],
                         insert link (snd a)))))"

text \<open>
  The callback (lines 793-923): the primary pass, the fallback pass when the results
  are fewer than maxResults, and the final slice. An exception of the primary pass
  ends the callback; the records gathered until then are lost.
\<close>

definition extractResults :: "dom \<Rightarrow> int \<Rightarrow> pageError + SearchResult list" where
  "extractResults d maxResults =
    (case primaryPass d maxResults of
       Inl error \<Rightarrow> Inl error
     | Inr a \<Rightarrow>
        (let a' = (if int (length (fst a)) < maxResults
                   then fallbackLoop d maxResults (document_querySelectorAll d anchorSelector) a
                   else a)
         in Inr (slice0 (fst a') maxResults)))"

subsection \<open>The two passes as the specification words them\<close>

text \<open>
  The specification describes the callback as a stream of candidate records in
  traversal order (the containers of each selector set in turn, then the anchors of
  the fallback scan), of which the first record of each link is kept until maxResults
  records are there. The definitions of this subsection follow those words; the
  proofs compare them with the loops of the source.

  A container is a candidate of the primary pass when it has a title element, its
  resolved link is a non-empty string that begins with the four characters http, and
  its trimmed title is not empty. An anchor is a candidate of the fallback pass when
  it is an HTMLAnchorElement whose link is not empty and contains none of the markers
  google.com/, accounts.google and support.google, and whose trimmed text is not
  empty. Containment is the contiguous occurrence \<^const>\<open>sublist\<close>.
\<close>

definition primaryCandidate :: "dom \<Rightarrow> selectorSet \<Rightarrow> node \<Rightarrow> SearchResult option" where
  "primaryCandidate d selectors container =
    (case querySelector d container (titleSel selectors) of
       None \<Rightarrow> None
     | Some titleElement \<Rightarrow>
        (case resolveLink d container titleElement of
           StringValue url \<Rightarrow>
             if url \<noteq> [] \<and> prefix ''http'' url \<and> trimmedText d titleElement \<noteq> []
             then Some \<lparr> title = trimmedText d titleElement, link = url,
                         snippet = resolveSnippet d selectors container \<rparr>
             else None
         | ObjectValue \<Rightarrow> None
         | UndefinedValue \<Rightarrow> None))"

definition primaryCandidates :: "dom \<Rightarrow> SearchResult list" where
  "primaryCandidates d =
    concat (map (\<lambda>selectors. List.map_filter (primaryCandidate d selectors)
                                (document_querySelectorAll d (containerSel selectors)))
                selectorSets)"

definition mentionsProvider :: "string \<Rightarrow> bool" where
  "mentionsProvider url =
    (sublist ''google.com/'' url \<or> sublist ''accounts.google'' url \<or>
     sublist ''support.google'' url)"

definition fallbackEligible :: "dom \<Rightarrow> node \<Rightarrow> bool" where
  "fallbackEligible d el =
    (instanceofHTMLAnchorElement d el \<and> href d el \<noteq> [] \<and> \<not> mentionsProvider (href d el) \<and>
     trimmedText d el \<noteq> [])"

definition anchorRecord :: "dom \<Rightarrow> node \<Rightarrow> SearchResult" where
  "anchorRecord d el =
    \<lparr> title = trimmedText d el, link = href d el,
      snippet = ancestorSnippet d el (trimmedText d el) \<rparr>"

definition fallbackCandidates :: "dom \<Rightarrow> SearchResult list" where
  "fallbackCandidates d =
    map (anchorRecord d) (filter (fallbackEligible d) (document_querySelectorAll d anchorSelector))"

text \<open>
  firstPerLink keeps, of the records with one link, the first; unseen drops the records
  whose link is in a given set.
\<close>

fun firstPerLink :: "SearchResult list \<Rightarrow> SearchResult list" where
  "firstPerLink [] = []"
| "firstPerLink (r # rs) = r # firstPerLink (filter (\<lambda>x. link x \<noteq> link r) rs)"

definition unseen :: "string set \<Rightarrow> SearchResult list \<Rightarrow> SearchResult list" where
  "unseen seen rs = filter (\<lambda>r. link r \<notin> seen) rs"

subsection \<open>A loop with the early exit of the source\<close>

text \<open>
  The three loops of the callback have one shape: leave when the results have reached
  maxResults, else take the next element, which throws, is skipped, or offers a record
  that is appended unless its link was seen. run is that loop over the list of what
  the elements do; offers lists the records offered.
\<close>

definition push :: "SearchResult \<Rightarrow> acc \<Rightarrow> acc" where
  "push r a = (if link r \<in> snd a then a else (fst a @ [r], insert (link r) (snd a)))"

fun run :: "int \<Rightarrow> (pageError + SearchResult option) list \<Rightarrow> acc \<Rightarrow> pageError + acc" where
  "run maxResults [] a = Inr a"
| "run maxResults (step # rest) a =
    (if int (length (fst a)) \<ge> maxResults then Inr a
     else case step of
            Inl error \<Rightarrow> Inl error
          | Inr None \<Rightarrow> run maxResults rest a
          | Inr (Some r) \<Rightarrow> run maxResults rest (push r a))"

definition offers :: "(pageError + SearchResult option) list \<Rightarrow> SearchResult list" where
  "offers steps = List.map_filter (\<lambda>step. case step of Inl error \<Rightarrow> None | Inr offer \<Rightarrow> offer) steps"

definition primaryStep :: "dom \<Rightarrow> selectorSet \<Rightarrow> node \<Rightarrow> pageError + SearchResult option" where
  "primaryStep d selectors container =
    (case querySelector d container (titleSel selectors) of
       None \<Rightarrow> Inr None
     | Some titleElement \<Rightarrow>
        (case resolveLink d container titleElement of
           ObjectValue \<Rightarrow> Inl startsWithMissing
         | StringValue url \<Rightarrow> Inr (primaryCandidate d selectors container)
         | UndefinedValue \<Rightarrow> Inr None))"

definition primarySteps :: "dom \<Rightarrow> selectorSet list \<Rightarrow> (pageError + SearchResult option) list" where
  "primarySteps d sets =
    concat (map (\<lambda>selectors. map (primaryStep d selectors)
                                (document_querySelectorAll d (containerSel selectors))) sets)"

definition fallbackStep :: "dom \<Rightarrow> node \<Rightarrow> pageError + SearchResult option" where
  "fallbackStep d el = Inr (if fallbackEligible d el then Some (anchorRecord d el) else None)"

text \<open>
  accOk: the links of the results are pairwise different and seenUrls holds exactly
  those links.
\<close>

definition accOk :: "acc \<Rightarrow> bool" where
  "accOk a = (distinct (map link (fst a)) \<and> snd a = link ` set (fst a))"

text \<open>
  The a elements whose href the primary pass reads without an instanceof test: the one
  inside the title element of a container, and the first one inside a container.
\<close>

definition readsObjectHref :: "dom \<Rightarrow> selectorSet \<Rightarrow> node \<Rightarrow> bool" where
  "readsObjectHref d selectors container =
    (case querySelector d container (titleSel selectors) of
       None \<Rightarrow> False
     | Some titleElement \<Rightarrow> resolveLink d container titleElement = ObjectValue)"

section \<open>The browser runtime, the file system and the state of one call\<close>

text \<open>
  Options as the callers pass them (interface CommandOptions, every key optional) and
  the values googleSearch works with after destructuring with its defaults. The
  timeouts only parameterise waits of the browser runtime and do not occur in the model.
\<close>

record CommandOptions =
  opt_limit :: "int option"
  opt_stateFile :: "string option"
  opt_noSaveState :: "bool option"
  opt_locale :: "string option"

record SavedState =
  fingerprint :: "FingerprintConfig option"
  googleDomain :: "string option"

record closure =
  searchQuery :: string
  limit :: int
  stateFile :: string
  noSaveState :: bool
  localeOption :: string
  fingerprintFile :: string
  storageState :: "string option"
  existingBrowser :: "nat option"

text \<open>
  The options handed to browser.newContext: the name of the playwright device whose
  descriptor is spread into them, the identity fields, the desktop overrides, and the
  storageState path when a session file was found.
\<close>

record ContextOptions =
  deviceDescriptor :: string
  co_locale :: string
  co_timezoneId :: string
  co_colorScheme :: colorScheme
  co_reducedMotion :: reducedMotion
  co_forcedColors :: forcedColors
  isMobile :: bool
  hasTouch :: bool
  co_storageState :: "string option"

text \<open>
  Files hold a session blob written by context.storageState, the JSON text of a
  SavedState written by JSON.stringify, the JSON text null, other text that is not
  JSON, or a screenshot. JSON.parse gives back the SavedState of the second, an object
  without the two keys for the first and null for the third, and throws a SyntaxError
  on the others. JSON texts of numbers, strings, booleans and arrays are not
  represented.
\<close>

datatype fileContent =
  SessionBlob string | SavedJson SavedState | JsonNull | OtherText string | PngImage

datatype parsed = ParsedObject SavedState | ParsedNull

fun JSON_parse :: "fileContent \<Rightarrow> parsed option" where
  "JSON_parse (SavedJson st) = Some (ParsedObject st)"
| "JSON_parse (SessionBlob b) = Some (ParsedObject \<lparr> fingerprint = None, googleDomain = None \<rparr>)"
| "JSON_parse JsonNull = Some ParsedNull"
| "JSON_parse (OtherText t) = None"
| "JSON_parse PngImage = None"

text \<open>
  Every call into the browser runtime or the file system that can throw. Browsers are
  numbered; chromium.launch returns the next free number.
\<close>

datatype call =
    ChromiumLaunch bool
  | NewContext nat ContextOptions
  | AddInitScript
  | NewPage nat
  | Goto nat string
  | PageClose
  | ContextClose
  | BrowserClose nat
  | WaitForNavigation
  | PageQuery string
  | Click
  | KeyboardType string
  | KeyboardPress
  | WaitForTimeout
  | WaitForLoadState
  | WaitForSelector string
  | Evaluate
  | PageContent
  | Screenshot string
  | ReadFileSync string
  | MkdirSync string
  | StorageState string
  | WriteFileSync string

text \<open>
  The state one call of googleSearch works on: the files and directories, the
  savedState variable of the closure, the calls issued so far, and the next browser
  number. The savedState variable holds an object, whose two keys are the field
  savedState, or null, in which case savedStateIsNull is set and the field savedState has no
  meaning.
\<close>

record sys =
  files :: "string \<rightharpoonup> fileContent"
  dirs :: "string set"
  savedState :: SavedState
  savedStateIsNull :: bool
  trace :: "call list"
  nextBrowser :: nat

text \<open>
  What lies outside the code: the host signals, the playwright device table (which
  names have a descriptor), path.dirname and the ancestors of a path (path.dirname
  applied again and again), the three regular-expression replacements
  that strip style, stylesheet-link and script elements from the markup (lines
  1452-1456, not interpreted here), the message playwright gives the rejection of
  page.evaluate when the callback throws, and for the n-th call issued whether it
  throws and with which message.
\<close>

record environment =
  hostSignals :: host
  hasDevice :: "string \<Rightarrow> bool"
  path_dirname :: "string \<Rightarrow> string"
  path_ancestors :: "string \<Rightarrow> string list"
  stripStyleAndScript :: "string \<Rightarrow> string"
  evaluateRejection :: "pageError \<Rightarrow> string"
  throws :: "nat \<Rightarrow> call \<Rightarrow> string option"

text \<open>
  What one run of performSearch observes of its page: the two random draws, page.url()
  and the response URL after the first navigation, which input selectors match,
  page.url() after the query was submitted and after the wait for results, the page
  the extraction callback runs on, and the session blob context.storageState writes;
  for getGoogleSearchPageHtml also page.url() before the markup is read, the markup
  page.content() returns, and the output path built from the query and the clock.
\<close>

record attempt =
  randomDevice :: nat
  randomDomain :: nat
  urlAfterGoto :: string
  responseUrl :: "string option"
  inputFound :: "string \<Rightarrow> bool"
  urlAfterSearch :: string
  urlAfterWait :: string
  renderedPage :: dom
  sessionBlob :: string
  finalUrl :: string
  fullHtml :: string
  timestampedPath :: string

subsection \<open>Programs over the state\<close>

text \<open>
  An async function body either completes with a value, throws an error (its message is
  kept), or, in performSearch, leaves through \<^verbatim>\<open>return performSearch(false)\<close>: the
  promise returned that way is not awaited inside the try block, so the catch block does
  not see its outcome.
\<close>

datatype exit = Thrown string | Restart

type_synonym 'a prog = "sys \<Rightarrow> (exit + 'a) \<times> sys"

definition ret :: "'a \<Rightarrow> 'a prog" where
  "ret x = (\<lambda>s. (Inr x, s))"

definition throwErr :: "string \<Rightarrow> 'a prog" where
  "throwErr e = (\<lambda>s. (Inl (Thrown e), s))"

definition restart :: "'a prog" where
  "restart = (\<lambda>s. (Inl Restart, s))"

definition bind :: "'a prog \<Rightarrow> ('a \<Rightarrow> 'b prog) \<Rightarrow> 'b prog" where
  "bind m f = (\<lambda>s. case m s of (Inl x, s') \<Rightarrow> (Inl x, s') | (Inr v, s') \<Rightarrow> f v s')"

definition thenDo :: "'a prog \<Rightarrow> 'b prog \<Rightarrow> 'b prog" where
  "thenDo m k = bind m (\<lambda>_. k)"

definition tryCatch :: "'a prog \<Rightarrow> (string \<Rightarrow> 'a prog) \<Rightarrow> 'a prog" where
  "tryCatch m handler =
    (\<lambda>s. case m s of (Inl (Thrown e), s') \<Rightarrow> handler e s' | r \<Rightarrow> r)"

definition gets :: "(sys \<Rightarrow> 'a) \<Rightarrow> 'a prog" where
  "gets f = (\<lambda>s. (Inr (f s), s))"

definition modify :: "(sys \<Rightarrow> sys) \<Rightarrow> unit prog" where
  "modify f = (\<lambda>s. (Inr (), f s))"

text \<open>Issuing a call records it in the trace; the environment decides whether it throws.\<close>

definition callExt :: "environment \<Rightarrow> call \<Rightarrow> unit prog" where
  "callExt env c =
    (\<lambda>s. case throws env (length (trace s)) c of
            Some msg \<Rightarrow> (Inl (Thrown msg), s\<lparr> trace := trace s @ [c] \<rparr>)
          | None \<Rightarrow> (Inr (), s\<lparr> trace := trace s @ [c] \<rparr>))"

fun calls :: "environment \<Rightarrow> call list \<Rightarrow> unit prog" where
  "calls env [] = ret ()"
| "calls env (c # cs) = thenDo (callExt env c) (calls env cs)"

definition launch :: "environment \<Rightarrow> bool \<Rightarrow> nat prog" where
  "launch env headless =
    thenDo (callExt env (ChromiumLaunch headless))
      (\<lambda>s. (Inr (nextBrowser s), s\<lparr> nextBrowser := Suc (nextBrowser s) \<rparr>))"

definition existsSync :: "sys \<Rightarrow> string \<Rightarrow> bool" where
  "existsSync s p = (files s p \<noteq> None \<or> p \<in> dirs s)"

section \<open>The query-path operation (googleSearch and its performSearch)\<close>

subsection \<open>Constants of the source\<close>

definition deviceList :: "string list" where
  "deviceList = [''Desktop Chrome'', ''Desktop Edge'', ''Desktop Firefox'', ''Desktop Safari'']"

definition googleDomains :: "string list" where
  "googleDomains =
    [''https://www.google.com'', ''https://www.google.co.uk'', ''https://www.google.ca'',
     ''https://www.google.com.au'']"

definition sorryPatterns :: "string list" where
  "sorryPatterns =
    [''google.com/sorry/index'', ''google.com/sorry'', ''recaptcha'', ''captcha'', ''unusual traffic'']"

definition searchInputSelectors :: "string list" where
  \<open>searchInputSelectors =
    [''textarea[name='q']'', ''input[name='q']'', ''textarea[title='Search']'',
     ''input[title='Search']'', ''textarea[aria-label='Search']'', ''input[aria-label='Search']'',
     ''textarea'']\<close>

definition searchResultSelectors :: "string list" where
  \<open>searchResultSelectors =
    [''#search'', ''#rso'', ''.g'', ''[data-sokoban-container]'', ''div[role='main']'']\<close>

text \<open>
  The messages of the source, as UTF-8 bytes. errorSearchBox and errorResults are the
  messages of the two errors performSearch throws itself (search box not found, result
  elements not found); failedTitle and failedSnippetPrefix are the title of the
  synthetic record (search failed) and the text its snippet puts before the message.
\<close>

definition errorSearchBox :: string where
  "errorSearchBox =
    [CHR 0xE6, CHR 0x97, CHR 0xA0, CHR 0xE6, CHR 0xB3, CHR 0x95, CHR 0xE6, CHR 0x89, CHR 0xBE,
     CHR 0xE5, CHR 0x88, CHR 0xB0, CHR 0xE6, CHR 0x90, CHR 0x9C, CHR 0xE7, CHR 0xB4, CHR 0xA2,
     CHR 0xE6, CHR 0xA1, CHR 0x86]"

definition errorResults :: string where
  "errorResults =
    [CHR 0xE6, CHR 0x97, CHR 0xA0, CHR 0xE6, CHR 0xB3, CHR 0x95, CHR 0xE6, CHR 0x89, CHR 0xBE,
     CHR 0xE5, CHR 0x88, CHR 0xB0, CHR 0xE6, CHR 0x90, CHR 0x9C, CHR 0xE7, CHR 0xB4, CHR 0xA2,
     CHR 0xE7, CHR 0xBB, CHR 0x93, CHR 0xE6, CHR 0x9E, CHR 0x9C, CHR 0xE5, CHR 0x85, CHR 0x83,
     CHR 0xE7, CHR 0xB4, CHR 0xA0]"

definition failedTitle :: string where
  "failedTitle =
    [CHR 0xE6, CHR 0x90, CHR 0x9C, CHR 0xE7, CHR 0xB4, CHR 0xA2, CHR 0xE5, CHR 0xA4, CHR 0xB1,
     CHR 0xE8, CHR 0xB4, CHR 0xA5]"

definition failedSnippetPrefix :: string where
  "failedSnippetPrefix =
    [CHR 0xE6, CHR 0x97, CHR 0xA0, CHR 0xE6, CHR 0xB3, CHR 0x95, CHR 0xE5, CHR 0xAE, CHR 0x8C,
     CHR 0xE6, CHR 0x88, CHR 0x90, CHR 0xE6, CHR 0x90, CHR 0x9C, CHR 0xE7, CHR 0xB4, CHR 0xA2,
     CHR 0xEF, CHR 0xBC, CHR 0x8C, CHR 0xE9, CHR 0x94, CHR 0x99, CHR 0xE8, CHR 0xAF, CHR 0xAF,
     CHR 0xE4, CHR 0xBF, CHR 0xA1, CHR 0xE6, CHR 0x81, CHR 0xAF, CHR 0x3A, CHR 0x20]"

record SearchResponse =
  query :: string
  results :: "SearchResult list"

datatype 'a outcome = Returned 'a | Raised string

definition errorResponse :: "string \<Rightarrow> string \<Rightarrow> SearchResponse" where
  "errorResponse q message =
    \<lparr> query = q,
      results = [\<lparr> title = failedTitle, link = [], snippet = failedSnippetPrefix @ message \<rparr>] \<rparr>"

subsection \<open>Identity and context options (lines 258-329)\<close>

text \<open>
  getDeviceConfig: the stored device name when it is non-empty and playwright knows it,
  else a random entry of deviceList.
\<close>

definition getDeviceConfig :: "environment \<Rightarrow> attempt \<Rightarrow> SavedState \<Rightarrow> string" where
  "getDeviceConfig env a saved =
    (case fingerprint saved of
       Some fp \<Rightarrow>
         if deviceName fp \<noteq> [] \<and> hasDevice env (deviceName fp) then deviceName fp
         else deviceList ! (randomDevice a mod length deviceList)
     | None \<Rightarrow> deviceList ! (randomDevice a mod length deviceList))"

definition contextOf :: "string \<Rightarrow> FingerprintConfig \<Rightarrow> ContextOptions" where
  "contextOf device fp =
    \<lparr> deviceDescriptor = device, co_locale = localeName fp, co_timezoneId = timezoneId fp,
      co_colorScheme = colorScheme fp, co_reducedMotion = reducedMotion fp,
      co_forcedColors = forcedColors fp, isMobile = False, hasTouch = False,
      co_storageState = None \<rparr>"

text \<open>
  The stored fingerprint is used when there is one; otherwise the host configuration
  is generated, its device replaces the drawn one when they differ, and it is stored
  in savedState.
\<close>

definition resolveContextOptions :: "environment \<Rightarrow> closure \<Rightarrow> attempt \<Rightarrow> ContextOptions prog" where
  "resolveContextOptions env cl a =
    bind (gets savedState) (\<lambda>saved.
      let device = getDeviceConfig env a saved
      in case fingerprint saved of
           Some fp \<Rightarrow> ret (contextOf device fp)
         | None \<Rightarrow>
            (let hostConfig = getHostMachineConfig (Some (localeOption cl)) (hostSignals env)
             in thenDo
                  (modify (\<lambda>s. s\<lparr> savedState := (savedState s)\<lparr> fingerprint := Some hostConfig \<rparr> \<rparr>))
                  (ret (contextOf (if deviceName hostConfig \<noteq> device then deviceName hostConfig
                                   else device) hostConfig))))"

text \<open>
  The first thing getDeviceConfig does is read savedState.fingerprint (line 185). When
  savedState is null that read throws a TypeError; the later reads and writes of
  savedState are reached only when it is an object.
\<close>

definition nullReadMessage :: string where
  \<open>nullReadMessage = ''Cannot read properties of null (reading 'fingerprint')''\<close>

definition readSavedState :: "unit prog" where
  "readSavedState =
    bind (gets savedStateIsNull) (\<lambda>isNull. if isNull then throwErr nullReadMessage else ret ())"

text \<open>
  Lines 208-378, everything before the try block: the browser (the caller's, or a
  launched one), the context options, the context and the page. Nothing here is inside
  a try, so an error leaves performSearch.
\<close>

definition prepareBrowser :: "environment \<Rightarrow> closure \<Rightarrow> attempt \<Rightarrow> bool \<Rightarrow> (nat \<times> bool \<times> ContextOptions) prog" where
  "prepareBrowser env cl a headless =
    bind (case existingBrowser cl of
            Some b \<Rightarrow> ret (b, True)
          | None \<Rightarrow> bind (launch env headless) (\<lambda>b. ret (b, False)))
      (\<lambda>(browser, browserWasProvided).
        thenDo readSavedState
          (bind (resolveContextOptions env cl a) (\<lambda>contextOptions.
             thenDo (calls env [NewContext browser (contextOptions\<lparr> co_storageState := storageState cl \<rparr>),
                               AddInitScript, NewPage browser, AddInitScript])
               (ret (browser, browserWasProvided, contextOptions)))))"

subsection \<open>Challenge detection and escalation\<close>

definition isBlockedPage :: "string \<Rightarrow> string option \<Rightarrow> bool" where
  "isBlockedPage currentUrl response =
    list_ex (\<lambda>pattern. js_includes currentUrl pattern \<or>
                       (case response of None \<Rightarrow> False | Some u \<Rightarrow> js_includes u pattern))
      sorryPatterns"

text \<open>
  The block the source repeats at its three checkpoints for a challenge met in headless
  mode (lines 420-487, 554-623, 675-744): close the page and the context; with a
  browser of the caller's, launch a new headed browser, open a context and a page in
  it, close it again and leave through performSearch(false), closing the new browser
  and rethrowing when one of these steps throws; with a browser of its own, close it
  and leave through performSearch(false).
\<close>

definition escalate :: "environment \<Rightarrow> nat \<Rightarrow> bool \<Rightarrow> ContextOptions \<Rightarrow> unit prog" where
  "escalate env browser browserWasProvided contextOptions =
    thenDo (calls env [PageClose, ContextClose])
      (if browserWasProvided
       then bind (launch env False) (\<lambda>newBrowser.
              tryCatch
                (thenDo (calls env [NewContext newBrowser contextOptions, NewPage newBrowser,
                                   BrowserClose newBrowser])
                   restart)
                (\<lambda>error. thenDo (callExt env (BrowserClose newBrowser)) (throwErr error)))
       else thenDo (callExt env (BrowserClose browser)) restart)"

subsection \<open>The pipeline inside the try block (lines 380-925)\<close>

definition selectDomain :: "attempt \<Rightarrow> string prog" where
  "selectDomain a =
    bind (gets savedState) (\<lambda>saved.
      case googleDomain saved of
        Some d \<Rightarrow>
          if d \<noteq> [] then ret d
          else (let selectedDomain = googleDomains ! (randomDomain a mod length googleDomains)
                in thenDo (modify (\<lambda>s. s\<lparr> savedState :=
                              (savedState s)\<lparr> googleDomain := Some selectedDomain \<rparr> \<rparr>))
                     (ret selectedDomain))
      | None \<Rightarrow>
          (let selectedDomain = googleDomains ! (randomDomain a mod length googleDomains)
           in thenDo (modify (\<lambda>s. s\<lparr> savedState :=
                         (savedState s)\<lparr> googleDomain := Some selectedDomain \<rparr> \<rparr>))
                (ret selectedDomain)))"

text \<open>The loop over the input selectors: the first selector page.$ finds ends it.\<close>

fun findSearchInput :: "environment \<Rightarrow> attempt \<Rightarrow> string list \<Rightarrow> bool prog" where
  "findSearchInput env a [] = ret False"
| "findSearchInput env a (selector # rest) =
    thenDo (callExt env (PageQuery selector))
      (if inputFound a selector then ret True else findSearchInput env a rest)"

text \<open>
  The loop over the result selectors: page.waitForSelector throws when its wait times
  out, and the loop catches that and goes on to the next selector.
\<close>

fun waitForResults :: "environment \<Rightarrow> string list \<Rightarrow> bool prog" where
  "waitForResults env [] = ret False"
| "waitForResults env (selector # rest) =
    tryCatch (thenDo (callExt env (WaitForSelector selector)) (ret True))
      (\<lambda>e. waitForResults env rest)"

text \<open>Lines 381-502: the target domain, the navigation, and the first checkpoint.\<close>

definition navigate ::
  "environment \<Rightarrow> attempt \<Rightarrow> bool \<Rightarrow> nat \<Rightarrow> bool \<Rightarrow> ContextOptions \<Rightarrow> unit prog" where
  "navigate env a headless browser browserWasProvided contextOptions =
    bind (selectDomain a) (\<lambda>selectedDomain.
      thenDo (callExt env (Goto browser selectedDomain))
        (if isBlockedPage (urlAfterGoto a) (responseUrl a)
         then (if headless then escalate env browser browserWasProvided contextOptions
               else callExt env WaitForNavigation)
         else ret ()))"

text \<open>Lines 504-641: the search box, the query, and the second checkpoint.\<close>

definition submitQuery ::
  "environment \<Rightarrow> closure \<Rightarrow> attempt \<Rightarrow> bool \<Rightarrow> nat \<Rightarrow> bool \<Rightarrow> ContextOptions \<Rightarrow> unit prog" where
  "submitQuery env cl a headless browser browserWasProvided contextOptions =
    bind (findSearchInput env a searchInputSelectors) (\<lambda>searchInput.
      thenDo (if \<not> searchInput then throwErr errorSearchBox else ret ())
        (thenDo (calls env [Click, KeyboardType (searchQuery cl), WaitForTimeout, KeyboardPress,
                           WaitForLoadState])
           (if isBlockedPage (urlAfterSearch a) None
            then (if headless then escalate env browser browserWasProvided contextOptions
                  else calls env [WaitForNavigation, WaitForLoadState])
            else ret ())))"

text \<open>Lines 643-783: the wait for a result container, and the third checkpoint.\<close>

definition awaitResults ::
  "environment \<Rightarrow> attempt \<Rightarrow> bool \<Rightarrow> nat \<Rightarrow> bool \<Rightarrow> ContextOptions \<Rightarrow> unit prog" where
  "awaitResults env a headless browser browserWasProvided contextOptions =
    bind (waitForResults env searchResultSelectors) (\<lambda>resultsFound.
      if \<not> resultsFound
      then (if isBlockedPage (urlAfterWait a) None
            then (if headless then escalate env browser browserWasProvided contextOptions
                  else thenDo (callExt env WaitForNavigation)
                         (bind (waitForResults env searchResultSelectors) (\<lambda>foundAfter.
                            if \<not> foundAfter then throwErr errorResults else ret ())))
            else throwErr errorResults)
      else ret ())"

text \<open>
  Lines 785-925: the pause and the extraction callback, run with the limit. When the
  callback throws, page.evaluate rejects, inside the try block of performSearch.
\<close>

definition extractStep :: "environment \<Rightarrow> closure \<Rightarrow> attempt \<Rightarrow> SearchResult list prog" where
  "extractStep env cl a =
    thenDo (calls env [WaitForTimeout, Evaluate])
      (case extractResults (renderedPage a) (limit cl) of
         Inl error \<Rightarrow> throwErr (evaluateRejection env error)
       | Inr found \<Rightarrow> ret found)"

definition pipeline ::
  "environment \<Rightarrow> closure \<Rightarrow> attempt \<Rightarrow> bool \<Rightarrow> nat \<Rightarrow> bool \<Rightarrow> ContextOptions \<Rightarrow> SearchResult list prog" where
  "pipeline env cl a headless browser browserWasProvided contextOptions =
    thenDo (navigate env a headless browser browserWasProvided contextOptions)
   (thenDo (submitQuery env cl a headless browser browserWasProvided contextOptions)
   (thenDo (awaitResults env a headless browser browserWasProvided contextOptions)
      (extractStep env cl a)))"

subsection \<open>Saving the state (lines 927-958 and 976-1000)\<close>

text \<open>
  ensureDir is the existsSync / mkdirSync pair; mkdirSync is called with recursive:
  true, so the directory comes into existence together with its ancestors. saveState
  is the body of the outer try of the save block: nothing when noSaveState is set;
  otherwise create the directory of the state file when it does not exist, let the
  context write the session blob, and write the fingerprint file inside a try of its
  own (writeFingerprint).
\<close>

definition ensureDir :: "environment \<Rightarrow> string \<Rightarrow> unit prog" where
  "ensureDir env dir =
    bind (gets (\<lambda>s. existsSync s dir)) (\<lambda>dirExists.
      if \<not> dirExists
      then thenDo (callExt env (MkdirSync dir))
             (modify (\<lambda>s. s\<lparr> dirs := insert dir (set (path_ancestors env dir) \<union> dirs s) \<rparr>))
      else ret ())"

definition writeFingerprint :: "environment \<Rightarrow> closure \<Rightarrow> unit prog" where
  "writeFingerprint env cl =
    tryCatch
      (thenDo (callExt env (WriteFileSync (fingerprintFile cl)))
         (modify (\<lambda>s. s\<lparr> files := (files s)(fingerprintFile cl \<mapsto> SavedJson (savedState s)) \<rparr>)))
      (\<lambda>fingerprintError. ret ())"

definition saveState :: "environment \<Rightarrow> closure \<Rightarrow> attempt \<Rightarrow> unit prog" where
  "saveState env cl a =
    (if \<not> noSaveState cl
     then thenDo (ensureDir env (path_dirname env (stateFile cl)))
         (thenDo (callExt env (StorageState (stateFile cl)))
         (thenDo (modify (\<lambda>s. s\<lparr> files := (files s)(stateFile cl \<mapsto> SessionBlob (sessionBlob a)) \<rparr>))
            (writeFingerprint env cl)))
     else ret ())"

text \<open>The save block with its outer try and catch: an error is logged and dropped.\<close>

definition saveBlock :: "environment \<Rightarrow> closure \<Rightarrow> attempt \<Rightarrow> unit prog" where
  "saveBlock env cl a = tryCatch (saveState env cl a) (\<lambda>error. ret ())"

definition closeOwnBrowser :: "environment \<Rightarrow> nat \<Rightarrow> bool \<Rightarrow> unit prog" where
  "closeOwnBrowser env browser browserWasProvided =
    (if \<not> browserWasProvided then callExt env (BrowserClose browser) else ret ())"

subsection \<open>performSearch and googleSearch\<close>

text \<open>
  The try block of performSearch (pipeline, save block, closing an own browser, the
  response) and its catch block (save block, closing an own browser, the synthetic
  response); the body of performSearch is the set-up followed by the two.
\<close>

definition tryBlock ::
  "environment \<Rightarrow> closure \<Rightarrow> attempt \<Rightarrow> bool \<Rightarrow> nat \<Rightarrow> bool \<Rightarrow> ContextOptions \<Rightarrow> SearchResponse prog" where
  "tryBlock env cl a headless browser browserWasProvided contextOptions =
    bind (pipeline env cl a headless browser browserWasProvided contextOptions) (\<lambda>rs.
      thenDo (saveBlock env cl a)
     (thenDo (closeOwnBrowser env browser browserWasProvided)
        (ret \<lparr> query = searchQuery cl, results = rs \<rparr>)))"

definition catchBlock ::
  "environment \<Rightarrow> closure \<Rightarrow> attempt \<Rightarrow> nat \<Rightarrow> bool \<Rightarrow> string \<Rightarrow> SearchResponse prog" where
  "catchBlock env cl a browser browserWasProvided error =
    thenDo (saveBlock env cl a)
   (thenDo (closeOwnBrowser env browser browserWasProvided)
      (ret (errorResponse (searchQuery cl) error)))"

definition performSearchBody :: "environment \<Rightarrow> closure \<Rightarrow> attempt \<Rightarrow> bool \<Rightarrow> SearchResponse prog" where
  "performSearchBody env cl a headless =
    bind (prepareBrowser env cl a headless) (\<lambda>(browser, browserWasProvided, contextOptions).
      tryCatch (tryBlock env cl a headless browser browserWasProvided contextOptions)
        (catchBlock env cl a browser browserWasProvided))"

text \<open>
  performSearch calls itself with headless = false when its body leaves through the
  escalation. Each run takes its observations from the head of the list; a run that
  finds the list empty has no value.
\<close>

fun performSearch ::
  "environment \<Rightarrow> closure \<Rightarrow> attempt list \<Rightarrow> bool \<Rightarrow> sys \<Rightarrow> (SearchResponse outcome \<times> sys) option" where
  "performSearch env cl [] headless s = None"
| "performSearch env cl (a # rest) headless s =
    (case performSearchBody env cl a headless s of
       (Inr response, s') \<Rightarrow> Some (Returned response, s')
     | (Inl (Thrown e), s') \<Rightarrow> Some (Raised e, s')
     | (Inl Restart, s') \<Rightarrow> performSearch env cl rest False s')"

text \<open>String.prototype.replace with a string pattern replaces the first occurrence.\<close>

fun replaceFirst :: "string \<Rightarrow> string \<Rightarrow> string \<Rightarrow> string" where
  "replaceFirst pat rep [] = (if pat = [] then rep else [])"
| "replaceFirst pat rep (c # cs) =
    (if prefix pat (c # cs) then rep @ drop (length pat) (c # cs)
     else c # replaceFirst pat rep cs)"

text \<open>
  Lines 126-155: the session file is used when it exists, and only then is the
  fingerprint file looked for, read and parsed; a failure of the read (a directory in
  its place, or an error of the file system) or of the parse is logged and savedState
  stays empty. What JSON.parse returns is assigned to savedState unchecked, null
  included. loadSavedState returns the storageState variable and the new state.
\<close>

definition readFingerprint :: "environment \<Rightarrow> string \<Rightarrow> unit prog" where
  "readFingerprint env fingerprintFilePath =
    tryCatch
      (thenDo (callExt env (ReadFileSync fingerprintFilePath))
         (bind (gets (\<lambda>s. files s fingerprintFilePath)) (\<lambda>content.
            case content of
              None \<Rightarrow> throwErr ''EISDIR''
            | Some fingerprintData \<Rightarrow>
               (case JSON_parse fingerprintData of
                  None \<Rightarrow> throwErr ''SyntaxError''
                | Some (ParsedObject object) \<Rightarrow>
                    modify (\<lambda>s. s\<lparr> savedState := object, savedStateIsNull := False \<rparr>)
                | Some ParsedNull \<Rightarrow> modify (\<lambda>s. s\<lparr> savedStateIsNull := True \<rparr>)))))
      (\<lambda>e. ret ())"

definition loadSavedState :: "environment \<Rightarrow> string \<Rightarrow> string \<Rightarrow> sys \<Rightarrow> string option \<times> sys" where
  "loadSavedState env stateFilePath fingerprintFilePath s =
    (if existsSync s stateFilePath
     then (Some stateFilePath,
           if existsSync s fingerprintFilePath then snd (readFingerprint env fingerprintFilePath s)
           else s)
     else (None, s))"

definition withDefault :: "'a option \<Rightarrow> 'a \<Rightarrow> 'a" where
  "withDefault v d = (case v of None \<Rightarrow> d | Some x \<Rightarrow> x)"

text \<open>
  The values googleSearch destructures from its options, with their defaults, together
  with the fingerprint path, the storageState variable and the caller's browser.
\<close>

definition stateFileOf :: "CommandOptions \<Rightarrow> string" where
  "stateFileOf options = withDefault (opt_stateFile options) ''./browser-state.json''"

definition fingerprintFileOf :: "CommandOptions \<Rightarrow> string" where
  "fingerprintFileOf options = replaceFirst ''.json'' ''-fingerprint.json'' (stateFileOf options)"

definition searchClosure :: "string \<Rightarrow> CommandOptions \<Rightarrow> nat option \<Rightarrow> string option \<Rightarrow> closure" where
  "searchClosure q options browserArg stored =
    \<lparr> searchQuery = q,
      limit = withDefault (opt_limit options) 10,
      stateFile = stateFileOf options,
      noSaveState = withDefault (opt_noSaveState options) False,
      localeOption = withDefault (opt_locale options) ''ko-KR'',
      fingerprintFile = fingerprintFileOf options,
      storageState = stored,
      existingBrowser = browserArg \<rparr>"

definition googleSearch ::
  "environment \<Rightarrow> string \<Rightarrow> CommandOptions \<Rightarrow> nat option \<Rightarrow> attempt list \<Rightarrow> sys
     \<Rightarrow> (SearchResponse outcome \<times> sys) option" where
  "googleSearch env q options browserArg attempts s =
    (let loaded = loadSavedState env (stateFileOf options) (fingerprintFileOf options)
                    (s\<lparr> savedState := \<lparr> fingerprint = None, googleDomain = None \<rparr>,
                       savedStateIsNull := False \<rparr>)
     in performSearch env (searchClosure q options browserArg (fst loaded)) attempts True
          (snd loaded))"

section \<open>The markup-fetch operation (getGoogleSearchPageHtml and its performSearchAndGetHtml)\<close>

text \<open>
  getGoogleSearchPageHtml repeats the code of googleSearch for loading the saved state,
  for the context options, for the navigation with its checkpoint, for the query with
  its checkpoint and for the save block; the model uses the same definitions. It always
  launches a browser of its own, so its escalation is the branch of escalate for an own
  browser.
\<close>

record HtmlResponse =
  html_query :: string
  html :: string
  url :: string
  savedPath :: "string option"
  screenshotPath :: "string option"
  originalHtmlLength :: nat

text \<open>The prefix of the wrapped error (fetching the Google search page HTML failed), as UTF-8 bytes.\<close>

definition htmlFailedPrefix :: string where
  "htmlFailedPrefix =
    [CHR 0x47, CHR 0x6F, CHR 0x6F, CHR 0x67, CHR 0x6C, CHR 0x65, CHR 0x20, CHR 0xEA, CHR 0xB2,
     CHR 0x80, CHR 0xEC, CHR 0x83, CHR 0x89, CHR 0x20, CHR 0xED, CHR 0x8E, CHR 0x98, CHR 0xEC,
     CHR 0x9D, CHR 0xB4, CHR 0xEC, CHR 0xA7, CHR 0x80, CHR 0x20, CHR 0x48, CHR 0x54, CHR 0x4D,
     CHR 0x4C, CHR 0x20, CHR 0xEA, CHR 0xB0, CHR 0x80, CHR 0xEC, CHR 0xA0, CHR 0xB8, CHR 0xEC,
     CHR 0x98, CHR 0xA4, CHR 0xEA, CHR 0xB8, CHR 0xB0, CHR 0x20, CHR 0xEC, CHR 0x8B, CHR 0xA4,
     CHR 0xED, CHR 0x8C, CHR 0xA8, CHR 0x3A, CHR 0x20]"

text \<open>\<^verbatim>\<open>outputPath.replace(/\.html$/, '.png')\<close>\<close>

definition pngPathOf :: "string \<Rightarrow> string" where
  "pngPathOf p =
    (if suffix ''.html'' p then take (length p - 5) p @ ''.png'' else p)"

text \<open>
  Lines 1467-1506: the output path (the caller's when it is given and not empty, else
  a generated one under ./google-search-html, whose directory is created first), its
  directory, the markup file and the screenshot. None of this is inside a try of its
  own.
\<close>

definition outputFileOf :: "attempt \<Rightarrow> string option \<Rightarrow> string" where
  "outputFileOf a outputPath =
    (if js_or outputPath [] = [] then timestampedPath a else js_or outputPath [])"

definition saveHtml ::
  "environment \<Rightarrow> attempt \<Rightarrow> string \<Rightarrow> string option \<Rightarrow> (string option \<times> string option) prog" where
  "saveHtml env a cleaned outputPath =
    thenDo (if js_or outputPath [] = [] then ensureDir env ''./google-search-html'' else ret ())
   (thenDo (ensureDir env (path_dirname env (outputFileOf a outputPath)))
   (thenDo (callExt env (WriteFileSync (outputFileOf a outputPath)))
   (thenDo (modify (\<lambda>s. s\<lparr> files := (files s)(outputFileOf a outputPath \<mapsto> OtherText cleaned) \<rparr>))
   (thenDo (callExt env (Screenshot (pngPathOf (outputFileOf a outputPath))))
   (thenDo (modify (\<lambda>s. s\<lparr> files := (files s)(pngPathOf (outputFileOf a outputPath) \<mapsto> PngImage) \<rparr>))
      (ret (Some (outputFileOf a outputPath), Some (pngPathOf (outputFileOf a outputPath)))))))))"

text \<open>Lines 1294-1506, the try block up to the save block.\<close>

definition htmlPipeline ::
  "environment \<Rightarrow> closure \<Rightarrow> attempt \<Rightarrow> bool \<Rightarrow> nat \<Rightarrow> ContextOptions \<Rightarrow> bool \<Rightarrow> string option
     \<Rightarrow> HtmlResponse prog" where
  "htmlPipeline env cl a headless browser contextOptions saveToFile outputPath =
    thenDo (navigate env a headless browser False contextOptions)
   (thenDo (submitQuery env cl a headless browser False contextOptions)
   (thenDo (calls env [WaitForTimeout, WaitForLoadState, PageContent])
   (bind (if saveToFile then saveHtml env a (stripStyleAndScript env (fullHtml a)) outputPath
          else ret (None, None))
      (\<lambda>(savedFilePath, screenshotFilePath).
         ret \<lparr> html_query = searchQuery cl,
               html = stripStyleAndScript env (fullHtml a),
               url = finalUrl a,
               savedPath = savedFilePath,
               screenshotPath = screenshotFilePath,
               originalHtmlLength = js_length (fullHtml a) \<rparr>))))"

definition htmlTryBlock ::
  "environment \<Rightarrow> closure \<Rightarrow> attempt \<Rightarrow> bool \<Rightarrow> nat \<Rightarrow> ContextOptions \<Rightarrow> bool \<Rightarrow> string option
     \<Rightarrow> HtmlResponse prog" where
  "htmlTryBlock env cl a headless browser contextOptions saveToFile outputPath =
    bind (htmlPipeline env cl a headless browser contextOptions saveToFile outputPath)
      (\<lambda>response.
        thenDo (saveBlock env cl a)
       (thenDo (callExt env (BrowserClose browser))
          (ret response)))"

definition htmlCatchBlock :: "environment \<Rightarrow> closure \<Rightarrow> attempt \<Rightarrow> nat \<Rightarrow> string \<Rightarrow> HtmlResponse prog" where
  "htmlCatchBlock env cl a browser error =
    thenDo (saveBlock env cl a)
   (thenDo (callExt env (BrowserClose browser))
      (throwErr (htmlFailedPrefix @ error)))"

definition performSearchAndGetHtmlBody ::
  "environment \<Rightarrow> closure \<Rightarrow> attempt \<Rightarrow> bool \<Rightarrow> bool \<Rightarrow> string option \<Rightarrow> HtmlResponse prog" where
  "performSearchAndGetHtmlBody env cl a headless saveToFile outputPath =
    bind (prepareBrowser env cl a headless) (\<lambda>(browser, browserWasProvided, contextOptions).
      tryCatch (htmlTryBlock env cl a headless browser contextOptions saveToFile outputPath)
        (htmlCatchBlock env cl a browser))"

fun performSearchAndGetHtml ::
  "environment \<Rightarrow> closure \<Rightarrow> attempt list \<Rightarrow> bool \<Rightarrow> bool \<Rightarrow> string option \<Rightarrow> sys
     \<Rightarrow> (HtmlResponse outcome \<times> sys) option" where
  "performSearchAndGetHtml env cl [] headless saveToFile outputPath s = None"
| "performSearchAndGetHtml env cl (a # rest) headless saveToFile outputPath s =
    (case performSearchAndGetHtmlBody env cl a headless saveToFile outputPath s of
       (Inr response, s') \<Rightarrow> Some (Returned response, s')
     | (Inl (Thrown e), s') \<Rightarrow> Some (Raised e, s')
     | (Inl Restart, s') \<Rightarrow> performSearchAndGetHtml env cl rest False saveToFile outputPath s')"

text \<open>
  getGoogleSearchPageHtml does not read a limit and takes no browser from its caller;
  the limit field of the closure is not used by anything it runs.
\<close>

definition htmlClosure :: "string \<Rightarrow> CommandOptions \<Rightarrow> string option \<Rightarrow> closure" where
  "htmlClosure q options stored = (searchClosure q options None stored)\<lparr> limit := 10 \<rparr>"

definition getGoogleSearchPageHtml ::
  "environment \<Rightarrow> string \<Rightarrow> CommandOptions \<Rightarrow> bool \<Rightarrow> string option \<Rightarrow> attempt list \<Rightarrow> sys
     \<Rightarrow> (HtmlResponse outcome \<times> sys) option" where
  "getGoogleSearchPageHtml env q options saveToFile outputPath attempts s =
    (let loaded = loadSavedState env (stateFileOf options) (fingerprintFileOf options)
                    (s\<lparr> savedState := \<lparr> fingerprint = None, googleDomain = None \<rparr>,
                       savedStateIsNull := False \<rparr>)
     in performSearchAndGetHtml env (htmlClosure q options (fst loaded)) attempts True
          saveToFile outputPath (snd loaded))"

section \<open>Properties of programs\<close>

text \<open>
  keeps f m: running m from any state leaves the component f of the state as it was.
  noRestart m: m never leaves through the escalation. issues P m: every call m adds to
  the trace satisfies P.
\<close>

definition keeps :: "(sys \<Rightarrow> 'b) \<Rightarrow> 'a prog \<Rightarrow> bool" where
  "keeps f m = (\<forall>s. f (snd (m s)) = f s)"

definition noRestart :: "'a prog \<Rightarrow> bool" where
  "noRestart m = (\<forall>s. fst (m s) \<noteq> Inl Restart)"

definition issues :: "(call \<Rightarrow> bool) \<Rightarrow> 'a prog \<Rightarrow> bool" where
  "issues P m = (\<forall>s. \<exists>cs. trace (snd (m s)) = trace s @ cs \<and> list_all P cs)"

text \<open>
  The part of a trace that concerns browsers: which instance was launched (with its
  headless flag), on which instance a context was opened, on which instance a page
  navigated, which instance was closed.
\<close>

datatype browserEvent = Launched bool | ContextOn nat | NavigatedOn nat | Closed nat

fun browserEventOf :: "call \<Rightarrow> browserEvent option" where
  "browserEventOf (ChromiumLaunch headless) = Some (Launched headless)"
| "browserEventOf (NewContext b options) = Some (ContextOn b)"
| "browserEventOf (Goto b domain) = Some (NavigatedOn b)"
| "browserEventOf (BrowserClose b) = Some (Closed b)"
| "browserEventOf c = None"

definition browserEvents :: "call list \<Rightarrow> browserEvent list" where
  "browserEvents cs = List.map_filter browserEventOf cs"

text \<open>
  The first call an enabled save block issues, and the condition that none of the
  three calls of the save block throws.
\<close>

definition firstSaveCall :: "environment \<Rightarrow> closure \<Rightarrow> sys \<Rightarrow> call" where
  "firstSaveCall env cl s =
    (if existsSync s (path_dirname env (stateFile cl)) then StorageState (stateFile cl)
     else MkdirSync (path_dirname env (stateFile cl)))"

definition saveCallsSucceed :: "environment \<Rightarrow> closure \<Rightarrow> bool" where
  "saveCallsSucceed env cl =
    (\<forall>n. throws env n (MkdirSync (path_dirname env (stateFile cl))) = None \<and>
         throws env n (StorageState (stateFile cl)) = None \<and>
         throws env n (WriteFileSync (fingerprintFile cl)) = None)"

text \<open>
  The condition that none of the calls that set up the browser, the context and the
  page throws; and the identity generated for a closure on the host of an environment.
\<close>

definition setupCallsSucceed :: "environment \<Rightarrow> bool" where
  "setupCallsSucceed env =
    (\<forall>n. (\<forall>h. throws env n (ChromiumLaunch h) = None) \<and>
         (\<forall>b options. throws env n (NewContext b options) = None) \<and>
         throws env n AddInitScript = None \<and>
         (\<forall>b. throws env n (NewPage b) = None))"

definition freshIdentity :: "environment \<Rightarrow> closure \<Rightarrow> FingerprintConfig" where
  "freshIdentity env cl = getHostMachineConfig (Some (localeOption cl)) (hostSignals env)"

text \<open>The calls of the save block: creating a directory, writing the session, writing a file.\<close>

fun isSaveCall :: "call \<Rightarrow> bool" where
  "isSaveCall (MkdirSync p) = True"
| "isSaveCall (StorageState p) = True"
| "isSaveCall (WriteFileSync p) = True"
| "isSaveCall c = False"

text \<open>The calls that read a file.\<close>

fun readsFile :: "call \<Rightarrow> bool" where
  "readsFile (ReadFileSync p) = True"
| "readsFile c = False"

text \<open>
  ownOnly ext Q m: started in a state where browser ext exists already, m issues no
  call that closes ext, keeps ext in existence, and a value it completes with
  satisfies Q.
\<close>

definition ownOnly :: "nat \<Rightarrow> ('a \<Rightarrow> bool) \<Rightarrow> 'a prog \<Rightarrow> bool" where
  "ownOnly ext Q m =
    (\<forall>s. ext < nextBrowser s \<longrightarrow>
       (case m s of (r, s') \<Rightarrow>
          ext < nextBrowser s' \<and>
          (\<exists>cs. trace s' = trace s @ cs \<and> BrowserClose ext \<notin> set cs) \<and>
          (\<forall>v. r = Inr v \<longrightarrow> Q v)))"

section \<open>Concrete inputs\<close>

text \<open>
  A small results page. The first container selector matches the nodes 1, 8, 14 and
  18. Container 1 has the title 2, which sits inside the anchor 3, and the snippet 4.
  Container 8 has the title 13 around the anchor 6, which has the link of anchor 3; of
  its two div descendants, 22 holds the title and 23 a long text. Container 14 has the
  title 15, whose text is an ideographic space and a space, and the anchor 17.
  Container 18 has the title 19, which is neither around nor inside an anchor, the
  anchor 20, and the node 21 matched by the second alternative snippet selector. The
  absolute-HTTP selector matches, in document order, the anchors 3, 5 (a settings link
  of the search provider), 6, 7 (below node 10), 12 (the a element of an SVG image),
  11 (without text), 9, 17 and 20.
\<close>

definition examplePage :: dom where
  \<open>examplePage =
    \<lparr> document_querySelectorAll =
        (\<lambda>s. if s = ''#search div[data-hveid]'' then [1, 8, 14, 18]
             else if s = anchorSelector then [3, 5, 6, 7, 12, 11, 9, 17, 20] else []),
      querySelector =
        (\<lambda>e s. if e = 1 \<and> s = ''h3'' then Some 2
               else if e = 1 \<and> s = ''.VwiC3b'' then Some 4
               else if e = 8 \<and> s = ''h3'' then Some 13
               else if e = 13 \<and> s = ''a'' then Some 6
               else if e = 22 \<and> s = ''h3'' then Some 13
               else if e = 14 \<and> s = ''h3'' then Some 15
               else if e = 14 \<and> s = ''a'' then Some 17
               else if e = 18 \<and> s = ''h3'' then Some 19
               else if e = 18 \<and> s = ''a'' then Some 20
               else if e = 18 \<and> s = ''[data-sncf="1"]'' then Some 21
               else None),
      querySelectorAll = (\<lambda>e s. if e = 8 \<and> s = ''div'' then [22, 23] else []),
      textContent =
        (\<lambda>e. if e = 2 then Some '' Example Domain ''
             else if e = 4 then Some ''An example snippet''
             else if e = 5 then Some ''Settings''
             else if e = 6 then Some ''Example again''
             else if e = 7 then Some ''Example Org''
             else if e = 9 then Some ''Nine''
             else if e = 10 then Some ''A parent text that is longer than twenty''
             else if e = 11 then Some ''  ''
             else if e = 12 then Some ''Chart''
             else if e = 13 then Some ''Second title''
             else if e = 15 then Some [CHR 0xE3, CHR 0x80, CHR 0x80, CHR 0x20]
             else if e = 17 then Some ''Untitled''
             else if e = 19 then Some ''Container link''
             else if e = 20 then Some ''More''
             else if e = 21 then Some ''An alternative snippet''
             else if e = 22 then Some ''Second title and more text in the same block''
             else if e = 23 then Some '' A generic text of more than twenty ''
             else None),
      tagName =
        (\<lambda>e. if e \<in> {3, 5, 6, 7, 9, 11, 17, 20} then ''A'' else if e = 12 then ''a''
             else ''DIV''),
      instanceofHTMLAnchorElement = (\<lambda>e. e \<in> {3, 5, 6, 7, 9, 11, 17, 20}),
      instanceofSVGAElement = (\<lambda>e. e = 12),
      href =
        (\<lambda>e. if e = 3 \<or> e = 6 then ''https://example.com/''
             else if e = 5 then ''https://www.google.com/preferences''
             else if e = 7 then ''https://example.org/a''
             else if e = 9 then ''https://nine.example/''
             else if e = 11 then ''https://notext.example/''
             else if e = 17 then ''https://untitled.example/''
             else if e = 20 then ''https://container.example/'' else []),
      parentChain =
        (\<lambda>e. if e = 2 then [3, 1] else if e = 7 then [10] else if e = 13 then [22, 8]
             else if e = 15 then [14] else if e = 19 then [18] else []) \<rparr>\<close>


definition schemePage :: dom where
  "schemePage =
    \<lparr> document_querySelectorAll =
        (\<lambda>s. if s = ''#search div[data-hveid]'' then [1]
             else if s = anchorSelector then [3, 4] else []),
      querySelector =
        (\<lambda>e s. if e = 1 \<and> s = ''h3'' then Some 2
               else if e = 2 \<and> s = ''a'' then Some 3
               else None),
      querySelectorAll = (\<lambda>e s. []),
      textContent =
        (\<lambda>e. if e = 2 then Some ''Evil'' else if e = 4 then Some ''Docs'' else None),
      tagName = (\<lambda>e. if e = 3 \<or> e = 4 then ''A'' else ''DIV''),
      instanceofHTMLAnchorElement = (\<lambda>e. e = 3 \<or> e = 4),
      instanceofSVGAElement = (\<lambda>e. False),
      href =
        (\<lambda>e. if e = 3 then ''httpx://evil.test/''
             else if e = 4 then ''ftp://files.test/httpdocs'' else []),
      parentChain = (\<lambda>e. if e = 2 then [1] else []) \<rparr>"


text \<open>
  An environment in which no call throws, on a host at UTC+9 at two in the afternoon;
  an attempt whose first navigation lands on a challenge page; an attempt that meets no
  challenge and finds the search box and a result container; a state with the current
  directory and no files, in which browser 0 exists already (the caller's).
\<close>

definition exampleEnv :: environment where
  "exampleEnv =
    \<lparr> hostSignals = \<lparr> env_LANG = None, getTimezoneOffset = -540, getHours = 14,
                      os_platform = ''linux'' \<rparr>,
      hasDevice = (\<lambda>n. n \<in> set deviceList),
      path_dirname = (\<lambda>p. ''.''),
      path_ancestors = (\<lambda>p. []),
      stripStyleAndScript = (\<lambda>h. h),
      evaluateRejection = (\<lambda>error. case error of TypeError message \<Rightarrow>
                             ''page.evaluate: TypeError: '' @ message),
      throws = (\<lambda>n c. None) \<rparr>"

definition challengeAttempt :: attempt where
  "challengeAttempt =
    \<lparr> randomDevice = 1, randomDomain = 0,
      urlAfterGoto = ''https://www.google.com/sorry/index?continue=x'',
      responseUrl = Some ''https://www.google.com/sorry/index?continue=x'',
      inputFound = (\<lambda>sel. False), urlAfterSearch = [], urlAfterWait = [],
      renderedPage = examplePage, sessionBlob = ''blob1'',
      finalUrl = [], fullHtml = [], timestampedPath = ''./google-search-html/isabelle-1.html'' \<rparr>"

definition clearAttempt :: attempt where
  "clearAttempt =
    \<lparr> randomDevice = 2, randomDomain = 1,
      urlAfterGoto = ''https://www.google.com/'',
      responseUrl = Some ''https://www.google.com/'',
      inputFound = (\<lambda>sel. sel = ''textarea''),
      urlAfterSearch = ''https://www.google.com/search?q=isabelle'', urlAfterWait = [],
      renderedPage = examplePage, sessionBlob = ''blob2'',
      finalUrl = ''https://www.google.com/search?q=isabelle'', fullHtml = ''<html></html>'',
      timestampedPath = ''./google-search-html/isabelle-2.html'' \<rparr>"


definition exampleSys :: sys where
  "exampleSys =
    \<lparr> files = Map.empty, dirs = {''.''},
      savedState = \<lparr> fingerprint = None, googleDomain = None \<rparr>, savedStateIsNull = False,
      trace = [], nextBrowser = 1 \<rparr>"

definition defaultOptions :: CommandOptions where
  "defaultOptions = \<lparr> opt_limit = None, opt_stateFile = None, opt_noSaveState = None, opt_locale = None \<rparr>"

definition noSaveOptions :: CommandOptions where
  "noSaveOptions =
    \<lparr> opt_limit = Some 2, opt_stateFile = None, opt_noSaveState = Some True, opt_locale = None \<rparr>"

text \<open>
  The closure googleSearch builds from the default options for the query isabelle when
  no session file exists; an environment in which launching a headless browser fails,
  one in which opening a page in browser 1 fails, and one in which
  context.storageState fails.
\<close>

definition exampleClosure :: closure where
  "exampleClosure =
    \<lparr> searchQuery = ''isabelle'', limit = 10, stateFile = ''./browser-state.json'',
      noSaveState = False, localeOption = ''ko-KR'',
      fingerprintFile = ''./browser-state-fingerprint.json'', storageState = None,
      existingBrowser = None \<rparr>"

definition failingLaunchEnv :: environment where
  "failingLaunchEnv =
    exampleEnv\<lparr> throws := (\<lambda>n c. if c = ChromiumLaunch True then Some ''launch failed'' else None) \<rparr>"

definition failingPageEnv :: environment where
  "failingPageEnv =
    exampleEnv\<lparr> throws := (\<lambda>n c. if c = NewPage 1 then Some ''page failed'' else None) \<rparr>"

definition fullDiskEnv :: environment where
  "fullDiskEnv =
    exampleEnv\<lparr> throws := (\<lambda>n c. if c = StorageState ''./browser-state.json'' then Some ''ENOSPC''
                                 else None) \<rparr>"

text \<open>The context options generated on the example host.\<close>

definition exampleContext :: ContextOptions where
  "exampleContext =
    \<lparr> deviceDescriptor = ''Desktop Chrome'', co_locale = ''ko-KR'',
      co_timezoneId = ''Asia/Shanghai'', co_colorScheme = Light,
      co_reducedMotion = NoPreference, co_forcedColors = NoForcedColors,
      isMobile = False, hasTouch = False, co_storageState = None \<rparr>"

text \<open>
  A fingerprint stored by an earlier run on another host, and two states that hold it
  in the fingerprint file: one without the session file, one with it.
\<close>

definition staleState :: SavedState where
  "staleState =
    \<lparr> fingerprint = Some \<lparr> deviceName = ''Desktop Chrome'', localeName = ''en-US'',
                           timezoneId = ''Europe/London'', colorScheme = Dark,
                           reducedMotion = NoPreference, forcedColors = NoForcedColors \<rparr>,
      googleDomain = Some ''https://www.google.co.uk'' \<rparr>"

definition fingerprintOnlySys :: sys where
  "fingerprintOnlySys =
    exampleSys\<lparr> files := [''./browser-state-fingerprint.json'' \<mapsto> SavedJson staleState] \<rparr>"

definition bothFilesSys :: sys where
  "bothFilesSys =
    exampleSys\<lparr> files := [''./browser-state-fingerprint.json'' \<mapsto> SavedJson staleState,
                           ''./browser-state.json'' \<mapsto> SessionBlob ''blob0''] \<rparr>"

text \<open>A state with the session file and a fingerprint file that holds the JSON text null.\<close>

definition nullFileSys :: sys where
  "nullFileSys =
    exampleSys\<lparr> files := [''./browser-state-fingerprint.json'' \<mapsto> JsonNull,
                           ''./browser-state.json'' \<mapsto> SessionBlob ''blob0''] \<rparr>"

text \<open>The identity generated on the example host.\<close>

definition exampleIdentity :: FingerprintConfig where
  "exampleIdentity =
    \<lparr> deviceName = ''Desktop Chrome'', localeName = ''ko-KR'', timezoneId = ''Asia/Shanghai'',
      colorScheme = Light, reducedMotion = NoPreference, forcedColors = NoForcedColors \<rparr>"

section \<open>Properties of the host-derived identity\<close>

lemma timezoneId_getHostMachineConfig:
  "timezoneId (getHostMachineConfig l hst) = timezoneOfOffset (getTimezoneOffset hst)"
  by (simp add: getHostMachineConfig_def Let_def)

lemma colorScheme_getHostMachineConfig:
  "colorScheme (getHostMachineConfig l hst) = colorSchemeOfHour (getHours hst)"
  by (simp add: getHostMachineConfig_def Let_def)


section \<open>Properties of the extraction callback\<close>

subsection \<open>String tests\<close>

lemma js_includes_sublist: "js_includes s pat = sublist pat s"
proof (induction s)
  case Nil
  show ?case by auto
next
  case (Cons c cs)
  show ?case
  proof (cases pat)
    case Nil
    then show ?thesis by simp
  next
    case (Cons p ps)
    with Cons.IH show ?thesis by (simp add: sublist_Cons_right)
  qed
qed

lemma excludedLink_mentions: "excludedLink l = mentionsProvider l"
  by (simp add: excludedLink_def mentionsProvider_def js_includes_sublist)

subsection \<open>Keeping the first record of each link\<close>

lemma set_firstPerLink: "set (firstPerLink rs) \<subseteq> set rs"
  by (induction rs rule: firstPerLink.induct) auto

lemma links_firstPerLink: "link ` set (firstPerLink rs) = link ` set rs"
proof (induction rs rule: firstPerLink.induct)
  case 1
  show ?case by simp
next
  case (2 r rs)
  have "link ` set (filter (\<lambda>x. link x \<noteq> link r) rs) = link ` set rs - {link r}"
    by auto
  with 2 show ?case by auto
qed

lemma distinct_firstPerLink: "distinct (map link (firstPerLink rs))"
proof (induction rs rule: firstPerLink.induct)
  case 1
  show ?case by simp
next
  case (2 r rs)
  have "link r \<notin> link ` set (firstPerLink (filter (\<lambda>x. link x \<noteq> link r) rs))"
    unfolding links_firstPerLink by auto
  with 2 show ?case by simp
qed

lemma unseen_filter:
  "filter (\<lambda>x. link x \<noteq> l) (unseen seen rs) = unseen (insert l seen) rs"
  by (induction rs) (auto simp: unseen_def)

lemma unseen_empty: "unseen {} rs = rs"
  by (simp add: unseen_def)

lemma firstPerLink_append:
  "firstPerLink (xs @ ys) = firstPerLink xs @ firstPerLink (unseen (link ` set xs) ys)"
proof (induction xs arbitrary: ys rule: firstPerLink.induct)
  case 1
  show ?case by (simp add: unseen_def)
next
  case (2 r rs)
  let ?p = "\<lambda>x. link x \<noteq> link r"
  have "unseen (link ` set (filter ?p rs)) (filter ?p ys) = unseen (link ` set (r # rs)) ys"
    unfolding unseen_def filter_filter by (rule filter_cong) auto
  with 2 [of "filter ?p ys"] show ?case by simp
qed

subsection \<open>The loop with the early exit\<close>

lemma run_full: "int (length (fst a)) \<ge> n \<Longrightarrow> run n steps a = Inr a"
  by (cases steps) simp_all

lemma run_append:
  "run n (xs @ ys) a = (case run n xs a of Inl e \<Rightarrow> Inl e | Inr a' \<Rightarrow> run n ys a')"
proof (induction xs arbitrary: a)
  case Nil
  show ?case by simp
next
  case (Cons x xs)
  show ?case
  proof (cases "int (length (fst a)) \<ge> n")
    case True
    then show ?thesis by (simp add: run_full)
  next
    case False
    with Cons.IH show ?thesis by (simp split: sum.splits option.splits)
  qed
qed

lemma run_throws: "run n steps a = Inl e \<Longrightarrow> Inl e \<in> set steps"
proof (induction steps arbitrary: a)
  case Nil
  then show ?case by simp
next
  case (Cons x xs)
  then show ?case by (auto split: if_splits sum.splits option.splits)
qed

lemma run_returns: "\<forall>e. Inl e \<notin> set steps \<Longrightarrow> \<exists>a'. run n steps a = Inr a'"
  using run_throws [of n steps a] by (cases "run n steps a") auto

lemma offers_Cons:
  "offers (Inl e # steps) = offers steps"
  "offers (Inr None # steps) = offers steps"
  "offers (Inr (Some r) # steps) = r # offers steps"
  by (simp_all add: offers_def List.map_filter_simps)

lemma offers_append: "offers (xs @ ys) = offers xs @ offers ys"
  by (simp add: offers_def List.map_filter_def)

lemma run_spec:
  assumes "accOk (rs, seen)" and "run n steps (rs, seen) = Inr (rs', seen')"
  shows "rs' = rs @ take (nat n - length rs) (firstPerLink (unseen seen (offers steps))) \<and>
         accOk (rs', seen')"
  using assms
proof (induction steps arbitrary: rs seen)
  case Nil
  then show ?case by (simp add: offers_def List.map_filter_simps unseen_def)
next
  case (Cons step steps)
  show ?case
  proof (cases "int (length rs) \<ge> n")
    case True
    then have "nat n - length rs = 0" by linarith
    with True Cons.prems show ?thesis by simp
  next
    case room: False
    then have suc: "nat n - length rs = Suc (nat n - Suc (length rs))" by linarith
    show ?thesis
    proof (cases step)
      case (Inl e)
      with room Cons.prems show ?thesis by simp
    next
      case (Inr offer)
      show ?thesis
      proof (cases offer)
        case None
        with Inr room Cons.prems have "run n steps (rs, seen) = Inr (rs', seen')" by simp
        from Cons.IH [OF Cons.prems(1) this]
        have "rs' = rs @ take (nat n - length rs) (firstPerLink (unseen seen (offers steps)))"
          and ok: "accOk (rs', seen')" by blast+
        with Inr None have "rs' = rs @ take (nat n - length rs)
            (firstPerLink (unseen seen (offers (step # steps))))"
          by (simp add: offers_Cons)
        with ok show ?thesis by blast
      next
        case (Some r)
        show ?thesis
        proof (cases "link r \<in> seen")
          case True
          with Some Inr room Cons.prems have "run n steps (rs, seen) = Inr (rs', seen')"
            by (simp add: push_def)
          from Cons.IH [OF Cons.prems(1) this]
          have "rs' = rs @ take (nat n - length rs) (firstPerLink (unseen seen (offers steps)))"
            and ok: "accOk (rs', seen')" by blast+
          with Inr Some True have "rs' = rs @ take (nat n - length rs)
              (firstPerLink (unseen seen (offers (step # steps))))"
            by (simp add: offers_Cons unseen_def)
          with ok show ?thesis by blast
        next
          case False
          with Cons.prems(1) have ok: "accOk (rs @ [r], insert (link r) seen)"
            by (auto simp: accOk_def)
          from False Some Inr room Cons.prems
          have "run n steps (rs @ [r], insert (link r) seen) = Inr (rs', seen')"
            by (simp add: push_def)
          from Cons.IH [OF ok this]
          have eq: "rs' = (rs @ [r]) @ take (nat n - length (rs @ [r]))
                  (firstPerLink (unseen (insert (link r) seen) (offers steps)))"
            and ok': "accOk (rs', seen')" by blast+
          have "unseen seen (offers (step # steps)) = r # unseen seen (offers steps)"
            using False Inr Some by (simp add: offers_Cons unseen_def)
          with eq have "rs' = rs @ take (nat n - length rs)
              (firstPerLink (unseen seen (offers (step # steps))))"
            by (simp add: suc unseen_filter)
          with ok' show ?thesis by blast
        qed
      qed
    qed
  qed
qed

subsection \<open>The loops of the source as instances of that loop\<close>

lemma processContainer_step:
  "processContainer d s c a =
    (case primaryStep d s c of
       Inl e \<Rightarrow> Inl e
     | Inr None \<Rightarrow> Inr a
     | Inr (Some r) \<Rightarrow> Inr (push r a))"
  by (auto simp: processContainer_def primaryStep_def primaryCandidate_def push_def startsWith_def
      Let_def split: option.splits propertyValue.splits)

lemma containerLoop_run:
  "containerLoop d n s cs a = run n (map (primaryStep d s) cs) a"
proof (induction cs arbitrary: a)
  case Nil
  show ?case by simp
next
  case (Cons c cs)
  then show ?case by (simp add: processContainer_step split: sum.splits option.splits)
qed

lemma selectorLoop_run: "selectorLoop d n sets a = run n (primarySteps d sets) a"
proof (induction sets arbitrary: a)
  case Nil
  show ?case by (simp add: primarySteps_def)
next
  case (Cons s sets)
  have steps: "primarySteps d (s # sets) =
      map (primaryStep d s) (document_querySelectorAll d (containerSel s)) @ primarySteps d sets"
    by (simp add: primarySteps_def)
  show ?case
  proof (cases "int (length (fst a)) \<ge> n")
    case True
    then show ?thesis by (simp add: run_full)
  next
    case False
    with Cons.IH show ?thesis
      unfolding steps run_append by (simp add: containerLoop_run split: sum.splits)
  qed
qed

lemma fallbackLoop_run: "run n (map (fallbackStep d) els) a = Inr (fallbackLoop d n els a)"
proof (induction els arbitrary: a)
  case Nil
  show ?case by simp
next
  case (Cons el els)
  show ?case
  proof (cases "fallbackEligible d el")
    case True
    with Cons.IH show ?thesis
      by (cases "href d el \<in> snd a")
         (simp_all add: fallbackStep_def fallbackEligible_def excludedLink_mentions push_def
            anchorRecord_def Let_def)
  next
    case False
    with Cons.IH show ?thesis
      by (auto simp: fallbackStep_def fallbackEligible_def excludedLink_mentions Let_def)
  qed
qed

lemma offers_primaryStep:
  "offers (map (primaryStep d s) cs) = List.map_filter (primaryCandidate d s) cs"
proof (induction cs)
  case Nil
  show ?case by (simp add: offers_def)
next
  case (Cons c cs)
  have "(case primaryStep d s c of Inl e \<Rightarrow> None | Inr offer \<Rightarrow> offer) = primaryCandidate d s c"
    by (auto simp: primaryStep_def primaryCandidate_def split: option.splits propertyValue.splits)
  with Cons show ?case by (simp add: offers_def split: option.splits)
qed

lemma offers_primarySteps:
  "offers (primarySteps d sets) =
     concat (map (\<lambda>s. List.map_filter (primaryCandidate d s)
                        (document_querySelectorAll d (containerSel s))) sets)"
proof (induction sets)
  case Nil
  show ?case by (simp add: primarySteps_def offers_def List.map_filter_simps)
next
  case (Cons s sets)
  have "primarySteps d (s # sets) =
      map (primaryStep d s) (document_querySelectorAll d (containerSel s)) @ primarySteps d sets"
    by (simp add: primarySteps_def)
  with Cons show ?case by (simp add: offers_append offers_primaryStep)
qed

lemma offers_fallbackStep:
  "offers (map (fallbackStep d) els) = map (anchorRecord d) (filter (fallbackEligible d) els)"
  by (induction els) (simp_all add: offers_def List.map_filter_simps fallbackStep_def)

subsection \<open>The two passes\<close>

lemma primaryPass_spec:
  assumes "primaryPass d n = Inr (rs, seen)"
  shows "rs = take (nat n) (firstPerLink (primaryCandidates d))"
    and "seen = link ` set rs" and "distinct (map link rs)"
proof -
  have "accOk ([], {})" by (simp add: accOk_def)
  moreover from assms have "run n (primarySteps d selectorSets) ([], {}) = Inr (rs, seen)"
    by (simp add: primaryPass_def selectorLoop_run)
  ultimately have both: "rs = [] @ take (nat n - length ([]::SearchResult list))
        (firstPerLink (unseen {} (offers (primarySteps d selectorSets)))) \<and> accOk (rs, seen)"
    by (rule run_spec)
  from both have ok: "accOk (rs, seen)" by blast
  from both have "rs = [] @ take (nat n - length ([]::SearchResult list))
        (firstPerLink (unseen {} (offers (primarySteps d selectorSets))))" by blast
  then have eq: "rs = take (nat n) (firstPerLink (primaryCandidates d))"
    by (simp add: unseen_empty offers_primarySteps primaryCandidates_def)
  show "rs = take (nat n) (firstPerLink (primaryCandidates d))" by (rule eq)
  from ok show "seen = link ` set rs" and "distinct (map link rs)"
    by (simp_all add: accOk_def)
qed

lemma fallbackLoop_spec:
  assumes "accOk (rs, seen)"
  shows "fst (fallbackLoop d n els (rs, seen)) =
           rs @ take (nat n - length rs)
                  (firstPerLink (unseen seen (map (anchorRecord d) (filter (fallbackEligible d) els))))"
proof -
  obtain rs' seen' where r: "fallbackLoop d n els (rs, seen) = (rs', seen')"
    by (cases "fallbackLoop d n els (rs, seen)")
  then have "run n (map (fallbackStep d) els) (rs, seen) = Inr (rs', seen')"
    by (simp add: fallbackLoop_run)
  from run_spec [OF assms this] r show ?thesis
    by (simp add: offers_fallbackStep)
qed

lemma slice0_bounded: "length xs \<le> nat n \<Longrightarrow> slice0 xs n = xs"
  by (auto simp: slice0_def)

text \<open>The callback in terms of its primary pass.\<close>

lemma extractResults_fallback:
  assumes "primaryPass d n = Inr (rs, seen)"
  shows "extractResults d n =
    Inr (if int (length rs) < n
         then rs @ take (nat n - length rs) (firstPerLink (unseen seen (fallbackCandidates d)))
         else rs)"
proof -
  note spec = primaryPass_spec [OF assms]
  have ok: "accOk (rs, seen)" using spec(2,3) by (simp add: accOk_def)
  have len: "length rs \<le> nat n" using spec(1) by simp
  let ?fb = "rs @ take (nat n - length rs) (firstPerLink (unseen seen (fallbackCandidates d)))"
  have fb: "fst (fallbackLoop d n (document_querySelectorAll d anchorSelector) (rs, seen)) = ?fb"
    using fallbackLoop_spec [OF ok] by (simp add: fallbackCandidates_def)
  have "length ?fb \<le> nat n" using len by simp
  then have "slice0 ?fb n = ?fb" by (rule slice0_bounded)
  moreover have "slice0 rs n = rs" using len by (rule slice0_bounded)
  ultimately show ?thesis
    using assms fb by (simp add: extractResults_def Let_def)
qed

text \<open>The callback as one stream of candidates.\<close>

lemma extractResults_stream:
  assumes "extractResults d n = Inr rs"
  shows "rs = take (nat n) (firstPerLink (primaryCandidates d @ fallbackCandidates d))"
proof -
  from assms obtain ps seen where p: "primaryPass d n = Inr (ps, seen)"
    by (auto simp: extractResults_def split: sum.splits)
  note spec = primaryPass_spec [OF p]
  let ?A = "firstPerLink (primaryCandidates d)"
  let ?B = "firstPerLink (unseen (link ` set (primaryCandidates d)) (fallbackCandidates d))"
  have all: "firstPerLink (primaryCandidates d @ fallbackCandidates d) = ?A @ ?B"
    by (rule firstPerLink_append)
  show ?thesis
  proof (cases "int (length ps) < n")
    case True
    with spec(1) have short: "length ?A < nat n" by auto
    with spec(1) have ps: "ps = ?A" by simp
    then have "seen = link ` set (primaryCandidates d)"
      using spec(2) by (simp add: links_firstPerLink)
    with True ps assms extractResults_fallback [OF p]
    have "rs = ?A @ take (nat n - length ?A) ?B" by simp
    with short show ?thesis unfolding all by simp
  next
    case False
    with assms extractResults_fallback [OF p] have rs: "rs = ps" by simp
    from False spec(1) have "nat n \<le> length ?A" by auto
    with rs spec(1) show ?thesis unfolding all by simp
  qed
qed

lemma callback_throws:
  assumes "extractResults d n = Inl e"
  shows "e = startsWithMissing \<and>
         (\<exists>s \<in> set selectorSets. \<exists>c \<in> set (document_querySelectorAll d (containerSel s)).
            readsObjectHref d s c)"
proof -
  from assms have "primaryPass d n = Inl e"
    by (auto simp: extractResults_def Let_def split: sum.splits)
  then have "run n (primarySteps d selectorSets) ([], {}) = Inl e"
    by (simp add: primaryPass_def selectorLoop_run)
  then have "Inl e \<in> set (primarySteps d selectorSets)" by (rule run_throws)
  then obtain s c where s: "s \<in> set selectorSets"
    and c: "c \<in> set (document_querySelectorAll d (containerSel s))"
    and step: "primaryStep d s c = Inl e"
    by (auto simp: primarySteps_def)
  from step have "e = startsWithMissing \<and> readsObjectHref d s c"
    by (auto simp: primaryStep_def readsObjectHref_def split: option.splits propertyValue.splits)
  with s c show ?thesis by blast
qed

lemma resolveLink_object:
  assumes "resolveLink d c t = ObjectValue"
  shows "\<exists>e. instanceofSVGAElement d e \<and> \<not> instanceofHTMLAnchorElement d e"
  using assms
  by (auto simp: resolveLink_def containerLinkOf_def hrefProperty_def
      split: option.splits if_splits)

lemma extractResults_returns:
  assumes "\<forall>e. instanceofSVGAElement d e \<longrightarrow> instanceofHTMLAnchorElement d e"
  shows "\<exists>rs. extractResults d n = Inr rs"
proof (cases "extractResults d n")
  case (Inl e)
  from callback_throws [OF Inl] obtain s c where "readsObjectHref d s c" by blast
  then obtain t where "resolveLink d c t = ObjectValue"
    by (auto simp: readsObjectHref_def split: option.splits)
  from resolveLink_object [OF this] assms show ?thesis by blast
next
  case (Inr rs)
  then show ?thesis by blast
qed

subsection \<open>What a candidate is\<close>

lemma primaryCandidate_props:
  assumes "primaryCandidate d s c = Some r"
  shows "title r \<noteq> [] \<and> link r \<noteq> [] \<and> prefix ''http'' (link r)"
  using assms
  by (auto simp: primaryCandidate_def split: option.splits propertyValue.splits if_splits)

lemma primaryCandidates_props:
  assumes "r \<in> set (primaryCandidates d)"
  shows "title r \<noteq> [] \<and> link r \<noteq> [] \<and> prefix ''http'' (link r)"
proof -
  from assms obtain s c where "primaryCandidate d s c = Some r"
    by (auto simp: primaryCandidates_def List.map_filter_def)
  then show ?thesis by (rule primaryCandidate_props)
qed

lemma fallbackCandidates_props:
  assumes "r \<in> set (fallbackCandidates d)"
  shows "title r \<noteq> [] \<and> link r \<noteq> [] \<and>
         (\<exists>el \<in> set (document_querySelectorAll d anchorSelector).
            instanceofHTMLAnchorElement d el \<and> link r = href d el)"
  using assms by (auto simp: fallbackCandidates_def fallbackEligible_def anchorRecord_def)

lemma extractResults_members:
  assumes "extractResults d n = Inr rs" and "r \<in> set rs"
  shows "r \<in> set (primaryCandidates d) \<or> r \<in> set (fallbackCandidates d)"
proof -
  from assms have "r \<in> set (firstPerLink (primaryCandidates d @ fallbackCandidates d))"
    using extractResults_stream [OF assms(1)] by (auto dest: in_set_takeD)
  with set_firstPerLink [of "primaryCandidates d @ fallbackCandidates d"] show ?thesis by auto
qed

lemma extractResults_distinct:
  assumes "extractResults d n = Inr rs"
  shows "distinct (map link rs)"
proof -
  have "distinct (map link (firstPerLink (primaryCandidates d @ fallbackCandidates d)))"
    by (rule distinct_firstPerLink)
  then have "distinct (take (nat n) (map link (firstPerLink (primaryCandidates d @ fallbackCandidates d))))"
    by (rule distinct_take)
  then show ?thesis
    unfolding extractResults_stream [OF assms] by (simp add: take_map)
qed




section \<open>Rules for programs\<close>

subsection \<open>What a program leaves unchanged\<close>

lemma keeps_ret: "keeps f (ret x)"
  by (simp add: keeps_def ret_def)

lemma keeps_throwErr: "keeps f (throwErr e)"
  by (simp add: keeps_def throwErr_def)

lemma keeps_restart: "keeps f restart"
  by (simp add: keeps_def restart_def)

lemma keeps_gets: "keeps f (gets g)"
  by (simp add: keeps_def gets_def)

lemma keeps_modify: "(\<And>s. f (g s) = f s) \<Longrightarrow> keeps f (modify g)"
  by (simp add: keeps_def modify_def)

lemma keeps_bind:
  assumes "keeps f m" and "\<And>x. keeps f (g x)"
  shows "keeps f (bind m g)"
  unfolding keeps_def
proof
  fix s
  obtain r s' where ms: "m s = (r, s')" by (cases "m s")
  from assms(1) ms have "f s' = f s" by (auto simp: keeps_def dest: spec [of _ s])
  with assms(2) ms show "f (snd (bind m g s)) = f s"
    by (cases r) (auto simp: bind_def keeps_def)
qed

lemma keeps_thenDo: "keeps f m \<Longrightarrow> keeps f k \<Longrightarrow> keeps f (thenDo m k)"
  by (simp add: thenDo_def keeps_bind)

lemma keeps_tryCatch:
  assumes "keeps f m" and "\<And>e. keeps f (h e)"
  shows "keeps f (tryCatch m h)"
  unfolding keeps_def
proof
  fix s
  obtain r s' where ms: "m s = (r, s')" by (cases "m s")
  from assms(1) ms have "f s' = f s" by (auto simp: keeps_def dest: spec [of _ s])
  with assms(2) ms show "f (snd (tryCatch m h s)) = f s"
    by (auto simp: tryCatch_def keeps_def split: sum.splits exit.splits)
qed

lemma keeps_callExt: "(\<And>s t. f (s\<lparr> trace := t \<rparr>) = f s) \<Longrightarrow> keeps f (callExt env c)"
  by (simp add: keeps_def callExt_def split: option.splits)

lemma keeps_calls: "(\<And>s t. f (s\<lparr> trace := t \<rparr>) = f s) \<Longrightarrow> keeps f (calls env cs)"
  by (induction cs) (simp_all add: keeps_ret keeps_thenDo keeps_callExt)

lemma keeps_launch:
  assumes t: "\<And>s t. f (s\<lparr> trace := t \<rparr>) = f s"
    and n: "\<And>s n. f (s\<lparr> nextBrowser := n \<rparr>) = f s"
  shows "keeps f (launch env h)"
  unfolding launch_def
proof (rule keeps_thenDo)
  show "keeps f (callExt env (ChromiumLaunch h))"
    by (rule keeps_callExt) (rule t)
  show "keeps f (\<lambda>s. (Inr (nextBrowser s), s\<lparr> nextBrowser := Suc (nextBrowser s) \<rparr>))"
    by (simp add: keeps_def n)
qed

lemmas keeps_intros = keeps_ret keeps_throwErr keeps_restart keeps_gets keeps_bind keeps_thenDo
  keeps_tryCatch keeps_callExt keeps_calls keeps_launch keeps_modify

lemma keepsD: "keeps f m \<Longrightarrow> m s = (r, s') \<Longrightarrow> f s' = f s"
  by (auto simp: keeps_def dest: spec [of _ s])

text \<open>
  The steps of performSearch, for a component that does not depend on the trace, on
  the browser counter, or on the googleDomain field of savedState.
\<close>

lemma keeps_escalate:
  assumes "\<And>s t. f (s\<lparr> trace := t \<rparr>) = f s" and "\<And>s n. f (s\<lparr> nextBrowser := n \<rparr>) = f s"
  shows "keeps f (escalate env b p c)"
  unfolding escalate_def using assms by (auto intro!: keeps_intros)

lemma keeps_findSearchInput:
  assumes "\<And>s t. f (s\<lparr> trace := t \<rparr>) = f s"
  shows "keeps f (findSearchInput env a sels)"
  using assms by (induction sels) (auto intro!: keeps_intros)

lemma keeps_waitForResults:
  assumes "\<And>s t. f (s\<lparr> trace := t \<rparr>) = f s"
  shows "keeps f (waitForResults env sels)"
  using assms by (induction sels) (auto intro!: keeps_intros)

lemma keeps_selectDomain:
  assumes "\<And>s d. f (s\<lparr> savedState := (savedState s)\<lparr> googleDomain := d \<rparr> \<rparr>) = f s"
  shows "keeps f (selectDomain a)"
  unfolding selectDomain_def using assms
  by (auto intro!: keeps_intros simp: Let_def split: option.splits)

lemma keeps_navigate:
  assumes "\<And>s t. f (s\<lparr> trace := t \<rparr>) = f s" and "\<And>s n. f (s\<lparr> nextBrowser := n \<rparr>) = f s"
    and "\<And>s d. f (s\<lparr> savedState := (savedState s)\<lparr> googleDomain := d \<rparr> \<rparr>) = f s"
  shows "keeps f (navigate env a h b p c)"
  unfolding navigate_def using assms
  by (auto intro!: keeps_intros keeps_escalate keeps_selectDomain)

lemma keeps_submitQuery:
  assumes "\<And>s t. f (s\<lparr> trace := t \<rparr>) = f s" and "\<And>s n. f (s\<lparr> nextBrowser := n \<rparr>) = f s"
  shows "keeps f (submitQuery env cl a h b p c)"
  unfolding submitQuery_def using assms
  by (auto intro!: keeps_intros keeps_escalate keeps_findSearchInput)

lemma keeps_awaitResults:
  assumes "\<And>s t. f (s\<lparr> trace := t \<rparr>) = f s" and "\<And>s n. f (s\<lparr> nextBrowser := n \<rparr>) = f s"
  shows "keeps f (awaitResults env a h b p c)"
  unfolding awaitResults_def using assms
  by (auto intro!: keeps_intros keeps_escalate keeps_waitForResults)

lemma keeps_extractStep:
  assumes "\<And>s t. f (s\<lparr> trace := t \<rparr>) = f s"
  shows "keeps f (extractStep env cl a)"
  unfolding extractStep_def using assms
  by (cases "extractResults (renderedPage a) (limit cl)") (auto intro!: keeps_intros)

lemma keeps_pipeline:
  assumes "\<And>s t. f (s\<lparr> trace := t \<rparr>) = f s" and "\<And>s n. f (s\<lparr> nextBrowser := n \<rparr>) = f s"
    and "\<And>s d. f (s\<lparr> savedState := (savedState s)\<lparr> googleDomain := d \<rparr> \<rparr>) = f s"
  shows "keeps f (pipeline env cl a h b p c)"
  unfolding pipeline_def using assms
  by (intro keeps_thenDo keeps_navigate keeps_submitQuery keeps_awaitResults keeps_extractStep)

lemma keeps_closeOwnBrowser:
  assumes "\<And>s t. f (s\<lparr> trace := t \<rparr>) = f s"
  shows "keeps f (closeOwnBrowser env b p)"
  unfolding closeOwnBrowser_def using assms by (auto intro!: keeps_intros)

lemma keeps_resolveContextOptions:
  assumes "\<And>s x. f (s\<lparr> savedState := (savedState s)\<lparr> fingerprint := x \<rparr> \<rparr>) = f s"
  shows "keeps f (resolveContextOptions env cl a)"
  unfolding resolveContextOptions_def using assms
  by (auto intro!: keeps_intros simp: Let_def split: option.splits)

lemma keeps_readSavedState: "keeps f readSavedState"
  unfolding readSavedState_def by (auto intro!: keeps_intros)

lemma keeps_prepareBrowser:
  assumes "\<And>s t. f (s\<lparr> trace := t \<rparr>) = f s" and "\<And>s n. f (s\<lparr> nextBrowser := n \<rparr>) = f s"
    and "\<And>s x. f (s\<lparr> savedState := (savedState s)\<lparr> fingerprint := x \<rparr> \<rparr>) = f s"
  shows "keeps f (prepareBrowser env cl a h)"
  unfolding prepareBrowser_def using assms
  by (auto intro!: keeps_intros keeps_resolveContextOptions keeps_readSavedState
      split: option.splits)

lemma keeps_saveBlock_disabled: "noSaveState cl \<Longrightarrow> keeps f (saveBlock env cl a)"
  by (simp add: saveBlock_def saveState_def keeps_tryCatch keeps_ret)

lemma keeps_saveBlock_savedState: "keeps savedState (saveBlock env cl a)"
  unfolding saveBlock_def saveState_def writeFingerprint_def ensureDir_def
  by (auto intro!: keeps_intros)

subsection \<open>Programs that do not leave through the escalation\<close>

lemma noRestart_ret: "noRestart (ret x)"
  by (simp add: noRestart_def ret_def)

lemma noRestart_throwErr: "noRestart (throwErr e)"
  by (simp add: noRestart_def throwErr_def)

lemma noRestart_gets: "noRestart (gets g)"
  by (simp add: noRestart_def gets_def)

lemma noRestart_modify: "noRestart (modify g)"
  by (simp add: noRestart_def modify_def)

lemma noRestart_callExt: "noRestart (callExt env c)"
  by (simp add: noRestart_def callExt_def split: option.splits)

lemma noRestart_bind:
  assumes "noRestart m" and "\<And>x. noRestart (g x)"
  shows "noRestart (bind m g)"
  unfolding noRestart_def
proof
  fix s
  obtain r s' where ms: "m s = (r, s')" by (cases "m s")
  from assms(1) ms have "r \<noteq> Inl Restart" by (auto simp: noRestart_def dest: spec [of _ s])
  with assms(2) ms show "fst (bind m g s) \<noteq> Inl Restart"
    by (cases r) (auto simp: bind_def noRestart_def)
qed

lemma noRestart_thenDo: "noRestart m \<Longrightarrow> noRestart k \<Longrightarrow> noRestart (thenDo m k)"
  by (simp add: thenDo_def noRestart_bind)

lemma noRestart_tryCatch:
  assumes "noRestart m" and "\<And>e. noRestart (h e)"
  shows "noRestart (tryCatch m h)"
  unfolding noRestart_def
proof
  fix s
  obtain r s' where ms: "m s = (r, s')" by (cases "m s")
  from assms(1) ms have "r \<noteq> Inl Restart" by (auto simp: noRestart_def dest: spec [of _ s])
  with assms(2) ms show "fst (tryCatch m h s) \<noteq> Inl Restart"
    by (auto simp: tryCatch_def noRestart_def split: sum.splits exit.splits)
qed

lemma noRestart_calls: "noRestart (calls env cs)"
  by (induction cs) (simp_all add: noRestart_ret noRestart_thenDo noRestart_callExt)

lemma noRestart_launch: "noRestart (launch env h)"
  by (simp add: noRestart_def launch_def thenDo_def bind_def callExt_def split: option.splits)

lemmas noRestart_intros = noRestart_ret noRestart_throwErr noRestart_gets noRestart_modify
  noRestart_callExt noRestart_bind noRestart_thenDo noRestart_tryCatch noRestart_calls
  noRestart_launch

lemma noRestart_findSearchInput: "noRestart (findSearchInput env a sels)"
  by (induction sels) (auto intro!: noRestart_intros)

lemma noRestart_waitForResults: "noRestart (waitForResults env sels)"
  by (induction sels) (auto intro!: noRestart_intros)

lemma noRestart_selectDomain: "noRestart (selectDomain a)"
  unfolding selectDomain_def
  by (auto intro!: noRestart_intros simp: Let_def split: option.splits)

lemma noRestart_extractStep: "noRestart (extractStep env cl a)"
  unfolding extractStep_def
  by (cases "extractResults (renderedPage a) (limit cl)") (auto intro!: noRestart_intros)

lemma noRestart_pipeline_headed: "noRestart (pipeline env cl a False b p c)"
  unfolding pipeline_def navigate_def submitQuery_def awaitResults_def
  by (auto intro!: noRestart_intros noRestart_findSearchInput noRestart_waitForResults
      noRestart_selectDomain noRestart_extractStep)

lemma noRestart_ensureDir: "noRestart (ensureDir env d)"
  unfolding ensureDir_def by (auto intro!: noRestart_intros)

lemma noRestart_saveBlock: "noRestart (saveBlock env cl a)"
  unfolding saveBlock_def saveState_def writeFingerprint_def
  by (auto intro!: noRestart_intros noRestart_ensureDir)

lemma noRestart_closeOwnBrowser: "noRestart (closeOwnBrowser env b p)"
  unfolding closeOwnBrowser_def by (auto intro!: noRestart_intros)

lemma noRestart_prepareBrowser: "noRestart (prepareBrowser env cl a h)"
  unfolding prepareBrowser_def resolveContextOptions_def readSavedState_def
  by (auto intro!: noRestart_intros simp: Let_def split: option.splits)

lemma noRestart_performSearchBody_headed: "noRestart (performSearchBody env cl a False)"
  unfolding performSearchBody_def tryBlock_def catchBlock_def
  by (auto intro!: noRestart_intros noRestart_prepareBrowser noRestart_pipeline_headed
      noRestart_saveBlock noRestart_closeOwnBrowser)

lemma performSearch_headed_returns:
  "\<exists>r s'. performSearch env cl (a # rest) False s = Some (r, s')"
proof -
  obtain x s1 where b: "performSearchBody env cl a False s = (x, s1)"
    by (cases "performSearchBody env cl a False s")
  with noRestart_performSearchBody_headed [of env cl a] have "x \<noteq> Inl Restart"
    by (auto simp: noRestart_def dest: spec [of _ s])
  with b show ?thesis
    by (auto split: sum.splits exit.splits)
qed

lemma performSearch_returns:
  "\<exists>r s'. performSearch env cl (a # b # rest) headless s = Some (r, s')"
proof -
  obtain x s1 where body: "performSearchBody env cl a headless s = (x, s1)"
    by (cases "performSearchBody env cl a headless s")
  show ?thesis
  proof (cases "x = Inl Restart")
    case True
    with body performSearch_headed_returns [of env cl b rest s1] show ?thesis by simp
  next
    case False
    with body show ?thesis by (auto split: sum.splits exit.splits)
  qed
qed

lemma googleSearch_returns:
  "\<exists>r s'. googleSearch env q options browserArg (a # b # rest) s = Some (r, s')"
  unfolding googleSearch_def Let_def by (rule performSearch_returns)

lemma noRestart_htmlPipeline_headed: "noRestart (htmlPipeline env cl a False b c saveToFile outputPath)"
  unfolding htmlPipeline_def navigate_def submitQuery_def saveHtml_def
  by (auto intro!: noRestart_intros noRestart_findSearchInput noRestart_selectDomain
      noRestart_ensureDir)

lemma noRestart_htmlBody_headed:
  "noRestart (performSearchAndGetHtmlBody env cl a False saveToFile outputPath)"
  unfolding performSearchAndGetHtmlBody_def htmlTryBlock_def htmlCatchBlock_def
  by (auto intro!: noRestart_intros noRestart_prepareBrowser noRestart_htmlPipeline_headed
      noRestart_saveBlock)

lemma performSearchAndGetHtml_headed_returns:
  "\<exists>r s'. performSearchAndGetHtml env cl (a # rest) False saveToFile outputPath s = Some (r, s')"
proof -
  obtain x s1 where b: "performSearchAndGetHtmlBody env cl a False saveToFile outputPath s = (x, s1)"
    by (cases "performSearchAndGetHtmlBody env cl a False saveToFile outputPath s")
  with noRestart_htmlBody_headed [of env cl a saveToFile outputPath] have "x \<noteq> Inl Restart"
    by (auto simp: noRestart_def dest: spec [of _ s])
  with b show ?thesis
    by (auto split: sum.splits exit.splits)
qed

lemma performSearchAndGetHtml_returns:
  "\<exists>r s'. performSearchAndGetHtml env cl (a # b # rest) headless saveToFile outputPath s = Some (r, s')"
proof -
  obtain x s1 where body: "performSearchAndGetHtmlBody env cl a headless saveToFile outputPath s = (x, s1)"
    by (cases "performSearchAndGetHtmlBody env cl a headless saveToFile outputPath s")
  show ?thesis
  proof (cases "x = Inl Restart")
    case True
    with body performSearchAndGetHtml_headed_returns [of env cl b rest saveToFile outputPath s1]
    show ?thesis by simp
  next
    case False
    with body show ?thesis by (auto split: sum.splits exit.splits)
  qed
qed

lemma getGoogleSearchPageHtml_returns:
  "\<exists>r s'. getGoogleSearchPageHtml env q options saveToFile outputPath (a # b # rest) s = Some (r, s')"
  unfolding getGoogleSearchPageHtml_def Let_def by (rule performSearchAndGetHtml_returns)

section \<open>Runs that do not save\<close>

lemma keeps_performSearchBody_disabled:
  assumes "noSaveState cl"
    and "\<And>s t. f (s\<lparr> trace := t \<rparr>) = f s" and "\<And>s n. f (s\<lparr> nextBrowser := n \<rparr>) = f s"
    and "\<And>s d. f (s\<lparr> savedState := (savedState s)\<lparr> googleDomain := d \<rparr> \<rparr>) = f s"
    and "\<And>s x. f (s\<lparr> savedState := (savedState s)\<lparr> fingerprint := x \<rparr> \<rparr>) = f s"
  shows "keeps f (performSearchBody env cl a h)"
  unfolding performSearchBody_def tryBlock_def catchBlock_def using assms
  by (auto intro!: keeps_bind keeps_thenDo keeps_tryCatch keeps_ret keeps_prepareBrowser
      keeps_pipeline keeps_saveBlock_disabled keeps_closeOwnBrowser)

lemma performSearch_keeps_disabled:
  assumes "noSaveState cl"
    and "\<And>s t. f (s\<lparr> trace := t \<rparr>) = f s" and "\<And>s n. f (s\<lparr> nextBrowser := n \<rparr>) = f s"
    and "\<And>s d. f (s\<lparr> savedState := (savedState s)\<lparr> googleDomain := d \<rparr> \<rparr>) = f s"
    and "\<And>s x. f (s\<lparr> savedState := (savedState s)\<lparr> fingerprint := x \<rparr> \<rparr>) = f s"
  shows "performSearch env cl attempts h s = Some (r, s') \<Longrightarrow> f s' = f s"
proof (induction attempts arbitrary: h s)
  case Nil
  then show ?case by simp
next
  case (Cons a rest)
  obtain x s1 where body: "performSearchBody env cl a h s = (x, s1)"
    by (cases "performSearchBody env cl a h s")
  have s1: "f s1 = f s"
    using keeps_performSearchBody_disabled [OF assms, of env a h] body by (rule keepsD)
  show ?case
  proof (cases "x = Inl Restart")
    case True
    with body Cons.prems have "performSearch env cl rest False s1 = Some (r, s')" by simp
    from Cons.IH [OF this] s1 show ?thesis by simp
  next
    case False
    with body Cons.prems have "s' = s1" by (auto split: sum.splits exit.splits)
    with s1 show ?thesis by simp
  qed
qed

lemma keeps_readFingerprint:
  assumes "\<And>s t. f (s\<lparr> trace := t \<rparr>) = f s" and "\<And>s x. f (s\<lparr> savedState := x \<rparr>) = f s"
    and "\<And>s x. f (s\<lparr> savedStateIsNull := x \<rparr>) = f s"
  shows "keeps f (readFingerprint env p)"
  unfolding readFingerprint_def using assms
  by (auto intro!: keeps_intros split: option.splits parsed.splits)

lemma loadSavedState_keeps:
  assumes "\<And>s t. f (s\<lparr> trace := t \<rparr>) = f s" and "\<And>s x. f (s\<lparr> savedState := x \<rparr>) = f s"
    and "\<And>s x. f (s\<lparr> savedStateIsNull := x \<rparr>) = f s"
  shows "f (snd (loadSavedState env sf fp s)) = f s"
  using keeps_readFingerprint [OF assms, of env fp]
  by (simp add: loadSavedState_def keeps_def)

lemma googleSearch_keeps_files_dirs:
  assumes "opt_noSaveState options = Some True"
    and "googleSearch env q options browserArg attempts s = Some (r, s')"
  shows "files s' = files s \<and> dirs s' = dirs s"
proof -
  let ?s0 = "s\<lparr> savedState := \<lparr> fingerprint = None, googleDomain = None \<rparr>,
                 savedStateIsNull := False \<rparr>"
  let ?l = "loadSavedState env (stateFileOf options) (fingerprintFileOf options) ?s0"
  let ?cl = "searchClosure q options browserArg (fst ?l)"
  from assms(2) have run: "performSearch env ?cl attempts True (snd ?l) = Some (r, s')"
    by (simp add: googleSearch_def Let_def)
  from assms(1) have off: "noSaveState ?cl" by (simp add: searchClosure_def withDefault_def)
  have "files s' = files (snd ?l)"
    by (rule performSearch_keeps_disabled [OF off _ _ _ _ run]) simp_all
  moreover have "dirs s' = dirs (snd ?l)"
    by (rule performSearch_keeps_disabled [OF off _ _ _ _ run]) simp_all
  moreover have "files (snd ?l) = files ?s0"
    by (rule loadSavedState_keeps) simp_all
  moreover have "dirs (snd ?l) = dirs ?s0"
    by (rule loadSavedState_keeps) simp_all
  ultimately show ?thesis by simp
qed

subsection \<open>The markup-fetch operation\<close>

lemma keeps_ensureDir:
  assumes "\<And>s t. f (s\<lparr> trace := t \<rparr>) = f s" and "\<And>s d. f (s\<lparr> dirs := d \<rparr>) = f s"
  shows "keeps f (ensureDir env dir)"
  unfolding ensureDir_def using assms by (auto intro!: keeps_intros)

lemma keeps_file_saveHtml:
  assumes "p \<noteq> outputFileOf a outputPath" and "p \<noteq> pngPathOf (outputFileOf a outputPath)"
  shows "keeps (\<lambda>s. files s p) (saveHtml env a cleaned outputPath)"
  unfolding saveHtml_def using assms
  by (auto intro!: keeps_intros keeps_ensureDir)

lemma keeps_file_htmlPipeline:
  assumes "saveToFile \<longrightarrow> p \<noteq> outputFileOf a outputPath \<and> p \<noteq> pngPathOf (outputFileOf a outputPath)"
  shows "keeps (\<lambda>s. files s p) (htmlPipeline env cl a h b c saveToFile outputPath)"
  unfolding htmlPipeline_def using assms
  by (auto intro!: keeps_intros keeps_navigate keeps_submitQuery keeps_file_saveHtml)

lemma keeps_file_htmlBody_disabled:
  assumes "noSaveState cl"
    and "saveToFile \<longrightarrow> p \<noteq> outputFileOf a outputPath \<and> p \<noteq> pngPathOf (outputFileOf a outputPath)"
  shows "keeps (\<lambda>s. files s p) (performSearchAndGetHtmlBody env cl a h saveToFile outputPath)"
  unfolding performSearchAndGetHtmlBody_def htmlTryBlock_def htmlCatchBlock_def using assms
  by (auto intro!: keeps_bind keeps_thenDo keeps_tryCatch keeps_ret keeps_throwErr keeps_callExt
      keeps_prepareBrowser keeps_file_htmlPipeline keeps_saveBlock_disabled)

lemma performSearchAndGetHtml_keeps_file_disabled:
  assumes "noSaveState cl"
  shows "\<forall>a \<in> set attempts. saveToFile \<longrightarrow>
             p \<noteq> outputFileOf a outputPath \<and> p \<noteq> pngPathOf (outputFileOf a outputPath) \<Longrightarrow>
         performSearchAndGetHtml env cl attempts h saveToFile outputPath s = Some (r, s') \<Longrightarrow>
         files s' p = files s p"
proof (induction attempts arbitrary: h s)
  case Nil
  then show ?case by simp
next
  case (Cons a rest)
  obtain x s1 where body: "performSearchAndGetHtmlBody env cl a h saveToFile outputPath s = (x, s1)"
    by (cases "performSearchAndGetHtmlBody env cl a h saveToFile outputPath s")
  have "keeps (\<lambda>s. files s p) (performSearchAndGetHtmlBody env cl a h saveToFile outputPath)"
    using Cons.prems(1) by (intro keeps_file_htmlBody_disabled assms) simp
  from keepsD [OF this body] have s1: "files s1 p = files s p" .
  show ?case
  proof (cases "x = Inl Restart")
    case True
    with body Cons.prems(2)
    have "performSearchAndGetHtml env cl rest False saveToFile outputPath s1 = Some (r, s')" by simp
    with Cons.IH [of False s1] Cons.prems(1) s1 show ?thesis by simp
  next
    case False
    with body Cons.prems(2) have "s' = s1" by (auto split: sum.splits exit.splits)
    with s1 show ?thesis by simp
  qed
qed

lemma getGoogleSearchPageHtml_keeps_file:
  assumes "opt_noSaveState options = Some True"
    and "\<forall>a \<in> set attempts. saveToFile \<longrightarrow>
           p \<noteq> outputFileOf a outputPath \<and> p \<noteq> pngPathOf (outputFileOf a outputPath)"
    and "getGoogleSearchPageHtml env q options saveToFile outputPath attempts s = Some (r, s')"
  shows "files s' p = files s p"
proof -
  let ?s0 = "s\<lparr> savedState := \<lparr> fingerprint = None, googleDomain = None \<rparr>,
                 savedStateIsNull := False \<rparr>"
  let ?l = "loadSavedState env (stateFileOf options) (fingerprintFileOf options) ?s0"
  let ?cl = "htmlClosure q options (fst ?l)"
  from assms(3) have run: "performSearchAndGetHtml env ?cl attempts True saveToFile outputPath
      (snd ?l) = Some (r, s')"
    by (simp add: getGoogleSearchPageHtml_def Let_def)
  from assms(1) have off: "noSaveState ?cl"
    by (simp add: htmlClosure_def searchClosure_def withDefault_def)
  have "files s' p = files (snd ?l) p"
    by (rule performSearchAndGetHtml_keeps_file_disabled [OF off assms(2) run])
  moreover have "files (snd ?l) p = files ?s0 p"
    by (rule loadSavedState_keeps) simp_all
  ultimately show ?thesis by simp
qed

section \<open>The try block, the catch block and the save block\<close>

subsection \<open>Running bind and tryCatch\<close>

lemma bind_Inr: "m s = (Inr v, s') \<Longrightarrow> bind m f s = f v s'"
  by (simp add: bind_def)

lemma bind_Inl: "m s = (Inl x, s') \<Longrightarrow> bind m f s = (Inl x, s')"
  by (simp add: bind_def)

lemma thenDo_Inr: "m s = (Inr v, s') \<Longrightarrow> thenDo m k s = k s'"
  by (simp add: thenDo_def bind_def)

lemma thenDo_Inl: "m s = (Inl x, s') \<Longrightarrow> thenDo m k s = (Inl x, s')"
  by (simp add: thenDo_def bind_def)

lemma tryCatch_Thrown: "m s = (Inl (Thrown e), s') \<Longrightarrow> tryCatch m h s = h e s'"
  by (simp add: tryCatch_def)

lemma tryCatch_Inr: "m s = (Inr v, s') \<Longrightarrow> tryCatch m h s = (Inr v, s')"
  by (simp add: tryCatch_def)


subsection \<open>The save block\<close>

lemma saveBlock_never_throws: "fst (saveBlock env cl a s) = Inr ()"
proof -
  obtain x s1 where st: "saveState env cl a s = (x, s1)"
    by (cases "saveState env cl a s")
  have "noRestart (saveState env cl a)"
    unfolding saveState_def writeFingerprint_def
    by (auto intro!: noRestart_intros noRestart_ensureDir)
  with st have "x \<noteq> Inl Restart"
    by (auto simp: noRestart_def dest: spec [of _ s])
  with st show ?thesis
    by (cases x) (auto simp: saveBlock_def tryCatch_def ret_def split: exit.splits)
qed

lemma saveBlock_run: "saveBlock env cl a s = (Inr (), snd (saveBlock env cl a s))"
  using saveBlock_never_throws [of env cl a s] by (cases "saveBlock env cl a s") simp

lemma saveBlock_attempts:
  assumes "\<not> noSaveState cl"
  shows "\<exists>cs. trace (snd (saveBlock env cl a s)) = trace s @ firstSaveCall env cl s # cs"
  using assms
  by (auto simp: saveBlock_def saveState_def ensureDir_def writeFingerprint_def firstSaveCall_def
      tryCatch_def thenDo_def bind_def gets_def modify_def ret_def callExt_def
      split: option.splits)

lemma saveBlock_writes:
  assumes "\<not> noSaveState cl" and "saveCallsSucceed env cl"
  shows "files (snd (saveBlock env cl a s)) =
           (files s)(stateFile cl \<mapsto> SessionBlob (sessionBlob a),
                     fingerprintFile cl \<mapsto> SavedJson (savedState s))"
    and "dirs (snd (saveBlock env cl a s)) =
           (if existsSync s (path_dirname env (stateFile cl)) then dirs s
            else insert (path_dirname env (stateFile cl))
                   (set (path_ancestors env (path_dirname env (stateFile cl))) \<union> dirs s))"
    and "savedState (snd (saveBlock env cl a s)) = savedState s"
  using assms
  by (auto simp: saveBlock_def saveState_def ensureDir_def writeFingerprint_def saveCallsSucceed_def
      tryCatch_def thenDo_def bind_def gets_def modify_def ret_def callExt_def existsSync_def)

lemma closeOwnBrowser_provided: "closeOwnBrowser env b True s = (Inr (), s)"
  by (simp add: closeOwnBrowser_def ret_def)

lemma closeOwnBrowser_ok:
  "throws env (length (trace s)) (BrowserClose b) = None \<Longrightarrow>
   closeOwnBrowser env b False s = (Inr (), s\<lparr> trace := trace s @ [BrowserClose b] \<rparr>)"
  by (simp add: closeOwnBrowser_def callExt_def)

lemma closeOwnBrowser_fst:
  "p \<or> throws env (length (trace s)) (BrowserClose b) = None \<Longrightarrow>
   fst (closeOwnBrowser env b p s) = Inr ()"
  by (auto simp: closeOwnBrowser_def callExt_def ret_def)

text \<open>What the catch block and the tail of the try block compute.\<close>

lemma catchBlock_run:
  "catchBlock env cl a b p e s =
    (case closeOwnBrowser env b p (snd (saveBlock env cl a s)) of
       (Inr u, s') \<Rightarrow> (Inr (errorResponse (searchQuery cl) e), s')
     | (Inl x, s') \<Rightarrow> (Inl x, s'))"
  unfolding catchBlock_def
  by (subst thenDo_Inr [OF saveBlock_run])
     (simp add: thenDo_def bind_def ret_def split: prod.splits sum.splits)


lemma performSearchBody_prepared:
  "prepareBrowser env cl a h s = (Inr (b, p, c), s1) \<Longrightarrow>
   performSearchBody env cl a h s = tryCatch (tryBlock env cl a h b p c) (catchBlock env cl a b p) s1"
  by (simp add: performSearchBody_def bind_def)

lemma performSearchBody_unprepared:
  "prepareBrowser env cl a h s = (Inl x, s1) \<Longrightarrow> performSearchBody env cl a h s = (Inl x, s1)"
  by (simp add: performSearchBody_def bind_def)

lemma htmlCatchBlock_run:
  "htmlCatchBlock env cl a b e s =
    (case callExt env (BrowserClose b) (snd (saveBlock env cl a s)) of
       (Inr u, s') \<Rightarrow> (Inl (Thrown (htmlFailedPrefix @ e)), s')
     | (Inl x, s') \<Rightarrow> (Inl x, s'))"
  unfolding htmlCatchBlock_def
  by (subst thenDo_Inr [OF saveBlock_run])
     (simp add: thenDo_def bind_def throwErr_def split: prod.splits sum.splits)

lemma htmlTryBlock_run:
  "htmlTryBlock env cl a h b c saveToFile outputPath s =
    (case htmlPipeline env cl a h b c saveToFile outputPath s of
       (Inl x, s1) \<Rightarrow> (Inl x, s1)
     | (Inr response, s1) \<Rightarrow>
        (case callExt env (BrowserClose b) (snd (saveBlock env cl a s1)) of
           (Inr u, s') \<Rightarrow> (Inr response, s')
         | (Inl x, s') \<Rightarrow> (Inl x, s')))"
proof (cases "htmlPipeline env cl a h b c saveToFile outputPath s")
  case (Pair r s1)
  show ?thesis
  proof (cases r)
    case (Inl x)
    with Pair show ?thesis by (simp add: htmlTryBlock_def bind_def)
  next
    case (Inr response)
    with Pair have "htmlTryBlock env cl a h b c saveToFile outputPath s =
        thenDo (saveBlock env cl a) (thenDo (callExt env (BrowserClose b)) (ret response)) s1"
      by (simp add: htmlTryBlock_def bind_def)
    also have "\<dots> = thenDo (callExt env (BrowserClose b)) (ret response) (snd (saveBlock env cl a s1))"
      by (rule thenDo_Inr [OF saveBlock_run])
    finally show ?thesis using Pair Inr
      by (simp add: thenDo_def bind_def ret_def split: prod.splits sum.splits)
  qed
qed

lemma htmlBody_prepared:
  "prepareBrowser env cl a h s = (Inr (b, p, c), s1) \<Longrightarrow>
   performSearchAndGetHtmlBody env cl a h saveToFile outputPath s =
     tryCatch (htmlTryBlock env cl a h b c saveToFile outputPath) (htmlCatchBlock env cl a b) s1"
  by (simp add: performSearchAndGetHtmlBody_def bind_def)

lemma htmlBody_unprepared:
  "prepareBrowser env cl a h s = (Inl x, s1) \<Longrightarrow>
   performSearchAndGetHtmlBody env cl a h saveToFile outputPath s = (Inl x, s1)"
  by (simp add: performSearchAndGetHtmlBody_def bind_def)

section \<open>The identity that a run saves\<close>

lemma resolveContextOptions_fresh:
  "fingerprint (savedState s) = None \<Longrightarrow>
   resolveContextOptions env cl a s =
     (Inr (contextOf ''Desktop Chrome'' (freshIdentity env cl)),
      s\<lparr> savedState := (savedState s)\<lparr> fingerprint := Some (freshIdentity env cl) \<rparr> \<rparr>)"
  by (simp add: resolveContextOptions_def bind_def thenDo_def gets_def modify_def ret_def Let_def
      getHostMachineConfig_def freshIdentity_def)

lemma prepareBrowser_succeeds:
  assumes "setupCallsSucceed env" and "\<not> savedStateIsNull s"
  shows "\<exists>b p c s1. prepareBrowser env cl a h s = (Inr (b, p, c), s1) \<and>
           fingerprint (savedState s1) =
             Some (case fingerprint (savedState s) of Some f \<Rightarrow> f | None \<Rightarrow> freshIdentity env cl) \<and>
           \<not> savedStateIsNull s1"
  using assms
  by (auto simp: prepareBrowser_def resolveContextOptions_def readSavedState_def launch_def
      setupCallsSucceed_def freshIdentity_def thenDo_def bind_def gets_def modify_def ret_def
      callExt_def Let_def split: option.splits)

lemma keeps_saveBlock_isNull: "keeps savedStateIsNull (saveBlock env cl a)"
  unfolding saveBlock_def saveState_def writeFingerprint_def ensureDir_def
  by (auto intro!: keeps_intros)

lemma keeps_isNull_tryCatch:
  "keeps savedStateIsNull (tryCatch (tryBlock env cl a h b p c) (catchBlock env cl a b p))"
proof -
  have pl: "keeps savedStateIsNull (pipeline env cl a h b p c)"
    by (rule keeps_pipeline) simp_all
  have cb: "keeps savedStateIsNull (closeOwnBrowser env b p)"
    by (rule keeps_closeOwnBrowser) simp
  show ?thesis
    unfolding tryBlock_def catchBlock_def
    by (intro keeps_tryCatch keeps_bind keeps_thenDo keeps_ret pl keeps_saveBlock_isNull cb)
qed

lemma keeps_fingerprint_pipeline: "keeps (\<lambda>s. fingerprint (savedState s)) (pipeline env cl a h b p c)"
  by (rule keeps_pipeline) simp_all

lemma keeps_fingerprint_tryCatch:
  "keeps (\<lambda>s. fingerprint (savedState s))
     (tryCatch (tryBlock env cl a h b p c) (catchBlock env cl a b p))"
proof -
  have sb: "keeps (\<lambda>s. fingerprint (savedState s)) (saveBlock env cl a)"
    using keeps_saveBlock_savedState [of env cl a] by (simp add: keeps_def)
  have cb: "keeps (\<lambda>s. fingerprint (savedState s)) (closeOwnBrowser env b p)"
    by (rule keeps_closeOwnBrowser) simp
  show ?thesis
    unfolding tryBlock_def catchBlock_def
    by (intro keeps_tryCatch keeps_bind keeps_thenDo keeps_ret keeps_fingerprint_pipeline sb cb)
qed

lemma saved_after_saveBlock:
  assumes "\<not> noSaveState cl" and "saveCallsSucceed env cl"
    and "keeps files k" and "keeps savedState k"
    and "thenDo (saveBlock env cl a) k s = (x, s')"
  shows "files s' (fingerprintFile cl) = Some (SavedJson (savedState s'))"
proof -
  let ?s1 = "snd (saveBlock env cl a s)"
  from assms(5) have k: "k ?s1 = (x, s')"
    by (simp add: thenDo_Inr [OF saveBlock_run])
  from keepsD [OF assms(3) k] keepsD [OF assms(4) k]
  show ?thesis
    by (simp add: saveBlock_writes [OF assms(1,2)])
qed

lemma keeps_finish:
  "keeps files (thenDo (closeOwnBrowser env b p) (ret v))"
  "keeps savedState (thenDo (closeOwnBrowser env b p) (ret v))"
  by (auto intro!: keeps_thenDo keeps_ret keeps_closeOwnBrowser)

lemma saved_after_tryCatch:
  assumes on: "\<not> noSaveState cl" and ok: "saveCallsSucceed env cl"
    and run: "tryCatch (tryBlock env cl a h b p c) (catchBlock env cl a b p) s = (x, s')"
    and x: "x \<noteq> Inl Restart"
  shows "files s' (fingerprintFile cl) = Some (SavedJson (savedState s'))"
proof -
  obtain r s1 where pl: "pipeline env cl a h b p c s = (r, s1)"
    by (cases "pipeline env cl a h b p c s")
  have handler: "files t' (fingerprintFile cl) = Some (SavedJson (savedState t'))"
    if "catchBlock env cl a b p e t = (y, t')" for e t y t'
    using that unfolding catchBlock_def
    by (rule saved_after_saveBlock [OF on ok keeps_finish])
  show ?thesis
  proof (cases r)
    case (Inr rs)
    obtain y s2 where tb: "tryBlock env cl a h b p c s = (y, s2)"
      by (cases "tryBlock env cl a h b p c s")
    with pl Inr have fin: "thenDo (saveBlock env cl a)
        (thenDo (closeOwnBrowser env b p) (ret \<lparr> query = searchQuery cl, results = rs \<rparr>)) s1 = (y, s2)"
      by (simp add: tryBlock_def bind_def)
    have s2: "files s2 (fingerprintFile cl) = Some (SavedJson (savedState s2))"
      by (rule saved_after_saveBlock [OF on ok keeps_finish fin])
    show ?thesis
    proof (cases y)
      case (Inr v)
      with tb run s2 show ?thesis by (simp add: tryCatch_def)
    next
      case (Inl ex)
      show ?thesis
      proof (cases ex)
        case (Thrown e)
        with Inl tb run have "catchBlock env cl a b p e s2 = (x, s')"
          by (simp add: tryCatch_def)
        then show ?thesis by (rule handler)
      next
        case Restart
        with Inl tb run x show ?thesis by (simp add: tryCatch_def)
      qed
    qed
  next
    case (Inl ex)
    with pl have tb: "tryBlock env cl a h b p c s = (Inl ex, s1)"
      by (simp add: tryBlock_def bind_def)
    show ?thesis
    proof (cases ex)
      case (Thrown e)
      with tb run have "catchBlock env cl a b p e s1 = (x, s')"
        by (simp add: tryCatch_def)
      then show ?thesis by (rule handler)
    next
      case Restart
      with tb run x show ?thesis by (simp add: tryCatch_def)
    qed
  qed
qed

lemma performSearch_saves_identity:
  assumes on: "\<not> noSaveState cl" and ok: "saveCallsSucceed env cl" and su: "setupCallsSucceed env"
  shows "fingerprint (savedState s) = None \<or> fingerprint (savedState s) = Some (freshIdentity env cl) \<Longrightarrow>
         \<not> savedStateIsNull s \<Longrightarrow>
         performSearch env cl attempts h s = Some (r, s') \<Longrightarrow>
         files s' (fingerprintFile cl) = Some (SavedJson (savedState s')) \<and>
         fingerprint (savedState s') = Some (freshIdentity env cl)"
proof (induction attempts arbitrary: h s)
  case Nil
  then show ?case by simp
next
  case (Cons a rest)
  obtain b p c s1 where prep: "prepareBrowser env cl a h s = (Inr (b, p, c), s1)"
    and fp1: "fingerprint (savedState s1) = Some (freshIdentity env cl)"
    and n1: "\<not> savedStateIsNull s1"
    using prepareBrowser_succeeds [OF su Cons.prems(2), of cl a h] Cons.prems(1) by auto
  obtain x s3 where tc: "tryCatch (tryBlock env cl a h b p c) (catchBlock env cl a b p) s1 = (x, s3)"
    by (cases "tryCatch (tryBlock env cl a h b p c) (catchBlock env cl a b p) s1")
  have body: "performSearchBody env cl a h s = (x, s3)"
    by (simp add: performSearchBody_prepared [OF prep] tc)
  have fp3: "fingerprint (savedState s3) = Some (freshIdentity env cl)"
    using keepsD [OF keeps_fingerprint_tryCatch tc] fp1 by simp
  have n3: "\<not> savedStateIsNull s3"
    using keepsD [OF keeps_isNull_tryCatch tc] n1 by simp
  show ?case
  proof (cases "x = Inl Restart")
    case True
    with body Cons.prems(3) have "performSearch env cl rest False s3 = Some (r, s')" by simp
    with Cons.IH [of s3 False] fp3 n3 show ?thesis by simp
  next
    case False
    with body Cons.prems(3) have "s' = s3" by (auto split: sum.splits exit.splits)
    with saved_after_tryCatch [OF on ok tc False] fp3 show ?thesis by simp
  qed
qed

lemma keeps_fingerprint_htmlPipeline:
  "keeps (\<lambda>s. fingerprint (savedState s)) (htmlPipeline env cl a h b c saveToFile outputPath)"
  unfolding htmlPipeline_def saveHtml_def
  by (auto intro!: keeps_intros keeps_navigate keeps_submitQuery keeps_ensureDir)

lemma keeps_fingerprint_htmlTryCatch:
  "keeps (\<lambda>s. fingerprint (savedState s))
     (tryCatch (htmlTryBlock env cl a h b c saveToFile outputPath) (htmlCatchBlock env cl a b))"
proof -
  have sb: "keeps (\<lambda>s. fingerprint (savedState s)) (saveBlock env cl a)"
    using keeps_saveBlock_savedState [of env cl a] by (simp add: keeps_def)
  have cb: "keeps (\<lambda>s. fingerprint (savedState s)) (callExt env (BrowserClose b))"
    by (rule keeps_callExt) simp
  show ?thesis
    unfolding htmlTryBlock_def htmlCatchBlock_def
    by (intro keeps_tryCatch keeps_bind keeps_thenDo keeps_ret keeps_throwErr
        keeps_fingerprint_htmlPipeline sb cb)
qed

lemma keeps_htmlFinish:
  "keeps files (thenDo (callExt env (BrowserClose b)) (ret v))"
  "keeps savedState (thenDo (callExt env (BrowserClose b)) (ret v))"
  "keeps files (thenDo (callExt env (BrowserClose b)) (throwErr e))"
  "keeps savedState (thenDo (callExt env (BrowserClose b)) (throwErr e))"
  by (auto intro!: keeps_thenDo keeps_ret keeps_throwErr keeps_callExt)

lemma saved_after_htmlTryCatch:
  assumes on: "\<not> noSaveState cl" and ok: "saveCallsSucceed env cl"
    and run: "tryCatch (htmlTryBlock env cl a h b c saveToFile outputPath) (htmlCatchBlock env cl a b) s
                = (x, s')"
    and x: "x \<noteq> Inl Restart"
  shows "files s' (fingerprintFile cl) = Some (SavedJson (savedState s'))"
proof -
  obtain r s1 where pl: "htmlPipeline env cl a h b c saveToFile outputPath s = (r, s1)"
    by (cases "htmlPipeline env cl a h b c saveToFile outputPath s")
  have handler: "files t' (fingerprintFile cl) = Some (SavedJson (savedState t'))"
    if "htmlCatchBlock env cl a b e t = (y, t')" for e t y t'
    using that unfolding htmlCatchBlock_def
    by (rule saved_after_saveBlock [OF on ok keeps_htmlFinish(3,4)])
  show ?thesis
  proof (cases r)
    case (Inr response)
    obtain y s2 where tb: "htmlTryBlock env cl a h b c saveToFile outputPath s = (y, s2)"
      by (cases "htmlTryBlock env cl a h b c saveToFile outputPath s")
    with pl Inr have fin: "thenDo (saveBlock env cl a)
        (thenDo (callExt env (BrowserClose b)) (ret response)) s1 = (y, s2)"
      by (simp add: htmlTryBlock_def bind_def)
    have s2: "files s2 (fingerprintFile cl) = Some (SavedJson (savedState s2))"
      by (rule saved_after_saveBlock [OF on ok keeps_htmlFinish(1,2) fin])
    show ?thesis
    proof (cases y)
      case (Inr v)
      with tb run s2 show ?thesis by (simp add: tryCatch_def)
    next
      case (Inl ex)
      show ?thesis
      proof (cases ex)
        case (Thrown e)
        with Inl tb run have "htmlCatchBlock env cl a b e s2 = (x, s')"
          by (simp add: tryCatch_def)
        then show ?thesis by (rule handler)
      next
        case Restart
        with Inl tb run x show ?thesis by (simp add: tryCatch_def)
      qed
    qed
  next
    case (Inl ex)
    with pl have tb: "htmlTryBlock env cl a h b c saveToFile outputPath s = (Inl ex, s1)"
      by (simp add: htmlTryBlock_def bind_def)
    show ?thesis
    proof (cases ex)
      case (Thrown e)
      with tb run have "htmlCatchBlock env cl a b e s1 = (x, s')"
        by (simp add: tryCatch_def)
      then show ?thesis by (rule handler)
    next
      case Restart
      with tb run x show ?thesis by (simp add: tryCatch_def)
    qed
  qed
qed

lemma keeps_isNull_htmlTryCatch:
  "keeps savedStateIsNull
     (tryCatch (htmlTryBlock env cl a h b c saveToFile outputPath) (htmlCatchBlock env cl a b))"
proof -
  have pl: "keeps savedStateIsNull (htmlPipeline env cl a h b c saveToFile outputPath)"
    unfolding htmlPipeline_def saveHtml_def
    by (auto intro!: keeps_intros keeps_navigate keeps_submitQuery keeps_ensureDir)
  have cb: "keeps savedStateIsNull (callExt env (BrowserClose b))"
    by (rule keeps_callExt) simp
  show ?thesis
    unfolding htmlTryBlock_def htmlCatchBlock_def
    by (intro keeps_tryCatch keeps_bind keeps_thenDo keeps_ret keeps_throwErr pl
        keeps_saveBlock_isNull cb)
qed

lemma performSearchAndGetHtml_saves_identity:
  assumes on: "\<not> noSaveState cl" and ok: "saveCallsSucceed env cl" and su: "setupCallsSucceed env"
  shows "fingerprint (savedState s) = None \<or> fingerprint (savedState s) = Some (freshIdentity env cl) \<Longrightarrow>
         \<not> savedStateIsNull s \<Longrightarrow>
         performSearchAndGetHtml env cl attempts h saveToFile outputPath s = Some (r, s') \<Longrightarrow>
         files s' (fingerprintFile cl) = Some (SavedJson (savedState s')) \<and>
         fingerprint (savedState s') = Some (freshIdentity env cl)"
proof (induction attempts arbitrary: h s)
  case Nil
  then show ?case by simp
next
  case (Cons a rest)
  obtain b p c s1 where prep: "prepareBrowser env cl a h s = (Inr (b, p, c), s1)"
    and fp1: "fingerprint (savedState s1) = Some (freshIdentity env cl)"
    and n1: "\<not> savedStateIsNull s1"
    using prepareBrowser_succeeds [OF su Cons.prems(2), of cl a h] Cons.prems(1) by auto
  obtain x s3 where tc: "tryCatch (htmlTryBlock env cl a h b c saveToFile outputPath)
      (htmlCatchBlock env cl a b) s1 = (x, s3)"
    by (cases "tryCatch (htmlTryBlock env cl a h b c saveToFile outputPath) (htmlCatchBlock env cl a b) s1")
  have body: "performSearchAndGetHtmlBody env cl a h saveToFile outputPath s = (x, s3)"
    by (simp add: htmlBody_prepared [OF prep] tc)
  have fp3: "fingerprint (savedState s3) = Some (freshIdentity env cl)"
    using keepsD [OF keeps_fingerprint_htmlTryCatch tc] fp1 by simp
  have n3: "\<not> savedStateIsNull s3"
    using keepsD [OF keeps_isNull_htmlTryCatch tc] n1 by simp
  show ?case
  proof (cases "x = Inl Restart")
    case True
    with body Cons.prems(3)
    have "performSearchAndGetHtml env cl rest False saveToFile outputPath s3 = Some (r, s')" by simp
    with Cons.IH [of s3 False] fp3 n3 show ?thesis by simp
  next
    case False
    with body Cons.prems(3) have "s' = s3" by (auto split: sum.splits exit.splits)
    with saved_after_htmlTryCatch [OF on ok tc False] fp3 show ?thesis by simp
  qed
qed

subsection \<open>Loading\<close>

lemma loadSavedState_absent:
  "\<not> existsSync s sf \<Longrightarrow> loadSavedState env sf fp s = (None, s)"
  by (simp add: loadSavedState_def)

lemma loadSavedState_present:
  assumes "existsSync s sf" and "files s fp = Some (SavedJson stored)"
    and "throws env (length (trace s)) (ReadFileSync fp) = None"
  shows "fst (loadSavedState env sf fp s) = Some sf"
    and "savedState (snd (loadSavedState env sf fp s)) = stored"
  using assms
  by (simp_all add: loadSavedState_def existsSync_def readFingerprint_def tryCatch_def thenDo_def
      bind_def gets_def modify_def callExt_def)

section \<open>Which calls a run issues\<close>

subsection \<open>The calls a program issues\<close>

lemma issues_ret: "issues P (ret x)"
  by (simp add: issues_def ret_def)

lemma issues_throwErr: "issues P (throwErr e)"
  by (simp add: issues_def throwErr_def)

lemma issues_restart: "issues P restart"
  by (simp add: issues_def restart_def)

lemma issues_gets: "issues P (gets g)"
  by (simp add: issues_def gets_def)

lemma issues_modify: "(\<And>s. trace (g s) = trace s) \<Longrightarrow> issues P (modify g)"
  by (simp add: issues_def modify_def)

lemma issues_callExt: "P c \<Longrightarrow> issues P (callExt env c)"
  by (simp add: issues_def callExt_def split: option.splits)

lemma issuesD: "issues P m \<Longrightarrow> m s = (r, s') \<Longrightarrow> \<exists>cs. trace s' = trace s @ cs \<and> list_all P cs"
  by (auto simp: issues_def dest: spec [of _ s])

lemma issues_bind:
  assumes "issues P m" and "\<And>x. issues P (g x)"
  shows "issues P (bind m g)"
  unfolding issues_def
proof
  fix s
  obtain r s' where ms: "m s = (r, s')" by (cases "m s")
  from issuesD [OF assms(1) ms] obtain cs where cs: "trace s' = trace s @ cs" "list_all P cs"
    by blast
  show "\<exists>ds. trace (snd (bind m g s)) = trace s @ ds \<and> list_all P ds"
  proof (cases r)
    case (Inl x)
    with ms cs show ?thesis by (auto simp: bind_def)
  next
    case (Inr v)
    obtain r2 s2 where g: "g v s' = (r2, s2)" by (cases "g v s'")
    from issuesD [OF assms(2) g] obtain ds where "trace s2 = trace s' @ ds" "list_all P ds"
      by blast
    with cs ms Inr g show ?thesis by (auto simp: bind_def)
  qed
qed

lemma issues_thenDo: "issues P m \<Longrightarrow> issues P k \<Longrightarrow> issues P (thenDo m k)"
  by (simp add: thenDo_def issues_bind)

lemma issues_tryCatch:
  assumes "issues P m" and "\<And>e. issues P (h e)"
  shows "issues P (tryCatch m h)"
  unfolding issues_def
proof
  fix s
  obtain r s' where ms: "m s = (r, s')" by (cases "m s")
  from issuesD [OF assms(1) ms] obtain cs where cs: "trace s' = trace s @ cs" "list_all P cs"
    by blast
  show "\<exists>ds. trace (snd (tryCatch m h s)) = trace s @ ds \<and> list_all P ds"
  proof (cases "\<exists>e. r = Inl (Thrown e)")
    case True
    then obtain e where e: "r = Inl (Thrown e)" by blast
    obtain r2 s2 where g: "h e s' = (r2, s2)" by (cases "h e s'")
    from issuesD [OF assms(2) g] obtain ds where "trace s2 = trace s' @ ds" "list_all P ds"
      by blast
    with cs ms e g show ?thesis by (auto simp: tryCatch_def)
  next
    case False
    with ms cs show ?thesis
      by (auto simp: tryCatch_def split: sum.splits exit.splits)
  qed
qed

lemma issues_calls: "list_all P cs \<Longrightarrow> issues P (calls env cs)"
  by (induction cs) (simp_all add: issues_ret issues_thenDo issues_callExt)

lemma issues_launch: "P (ChromiumLaunch h) \<Longrightarrow> issues P (launch env h)"
  by (auto simp: issues_def launch_def thenDo_def bind_def callExt_def split: option.splits)

lemmas issues_intros = issues_ret issues_throwErr issues_restart issues_gets issues_modify
  issues_callExt issues_bind issues_thenDo issues_tryCatch issues_calls issues_launch

text \<open>performSearch and performSearchAndGetHtml issue no call that reads a file.\<close>

lemma noRead_escalate: "issues (\<lambda>c. \<not> readsFile c) (escalate env b p c)"
  unfolding escalate_def by (auto intro!: issues_intros)

lemma noRead_findSearchInput: "issues (\<lambda>c. \<not> readsFile c) (findSearchInput env a sels)"
  by (induction sels) (auto intro!: issues_intros)

lemma noRead_waitForResults: "issues (\<lambda>c. \<not> readsFile c) (waitForResults env sels)"
  by (induction sels) (auto intro!: issues_intros)

lemma noRead_selectDomain: "issues (\<lambda>c. \<not> readsFile c) (selectDomain a)"
  unfolding selectDomain_def by (auto intro!: issues_intros simp: Let_def split: option.splits)

lemma noRead_navigate: "issues (\<lambda>c. \<not> readsFile c) (navigate env a h b p c)"
  unfolding navigate_def by (auto intro!: issues_intros noRead_escalate noRead_selectDomain)

lemma noRead_submitQuery: "issues (\<lambda>c. \<not> readsFile c) (submitQuery env cl a h b p c)"
  unfolding submitQuery_def by (auto intro!: issues_intros noRead_escalate noRead_findSearchInput)

lemma noRead_awaitResults: "issues (\<lambda>c. \<not> readsFile c) (awaitResults env a h b p c)"
  unfolding awaitResults_def by (auto intro!: issues_intros noRead_escalate noRead_waitForResults)

lemma noRead_extractStep: "issues (\<lambda>c. \<not> readsFile c) (extractStep env cl a)"
  unfolding extractStep_def
  by (cases "extractResults (renderedPage a) (limit cl)") (auto intro!: issues_intros)

lemma noRead_pipeline: "issues (\<lambda>c. \<not> readsFile c) (pipeline env cl a h b p c)"
  unfolding pipeline_def
  by (auto intro!: issues_intros noRead_navigate noRead_submitQuery noRead_awaitResults
      noRead_extractStep)

lemma noRead_ensureDir: "issues (\<lambda>c. \<not> readsFile c) (ensureDir env d)"
  unfolding ensureDir_def by (auto intro!: issues_intros)

lemma noRead_saveBlock: "issues (\<lambda>c. \<not> readsFile c) (saveBlock env cl a)"
  unfolding saveBlock_def saveState_def writeFingerprint_def
  by (auto intro!: issues_intros noRead_ensureDir)

lemma noRead_closeOwnBrowser: "issues (\<lambda>c. \<not> readsFile c) (closeOwnBrowser env b p)"
  unfolding closeOwnBrowser_def by (auto intro!: issues_intros)

lemma noRead_prepareBrowser: "issues (\<lambda>c. \<not> readsFile c) (prepareBrowser env cl a h)"
  unfolding prepareBrowser_def resolveContextOptions_def readSavedState_def
  by (auto intro!: issues_intros simp: Let_def split: option.splits)

lemma noRead_performSearchBody: "issues (\<lambda>c. \<not> readsFile c) (performSearchBody env cl a h)"
  unfolding performSearchBody_def tryBlock_def catchBlock_def
  by (auto intro!: issues_intros noRead_prepareBrowser noRead_pipeline noRead_saveBlock
      noRead_closeOwnBrowser)

lemma noRead_htmlBody:
  "issues (\<lambda>c. \<not> readsFile c) (performSearchAndGetHtmlBody env cl a h saveToFile outputPath)"
  unfolding performSearchAndGetHtmlBody_def htmlTryBlock_def htmlCatchBlock_def htmlPipeline_def
    saveHtml_def
  by (auto intro!: issues_intros noRead_prepareBrowser noRead_navigate noRead_submitQuery
      noRead_saveBlock noRead_ensureDir)

lemma performSearch_noRead:
  "performSearch env cl attempts h s = Some (r, s') \<Longrightarrow>
   \<exists>cs. trace s' = trace s @ cs \<and> list_all (\<lambda>c. \<not> readsFile c) cs"
proof (induction attempts arbitrary: h s)
  case Nil
  then show ?case by simp
next
  case (Cons a rest)
  obtain x s1 where body: "performSearchBody env cl a h s = (x, s1)"
    by (cases "performSearchBody env cl a h s")
  from issuesD [OF noRead_performSearchBody body]
  obtain cs where cs: "trace s1 = trace s @ cs" "list_all (\<lambda>c. \<not> readsFile c) cs" by blast
  show ?case
  proof (cases "x = Inl Restart")
    case True
    with body Cons.prems have "performSearch env cl rest False s1 = Some (r, s')" by simp
    from Cons.IH [OF this] cs show ?thesis by auto
  next
    case False
    with body Cons.prems have "s' = s1" by (auto split: sum.splits exit.splits)
    with cs show ?thesis by auto
  qed
qed

lemma performSearchAndGetHtml_noRead:
  "performSearchAndGetHtml env cl attempts h saveToFile outputPath s = Some (r, s') \<Longrightarrow>
   \<exists>cs. trace s' = trace s @ cs \<and> list_all (\<lambda>c. \<not> readsFile c) cs"
proof (induction attempts arbitrary: h s)
  case Nil
  then show ?case by simp
next
  case (Cons a rest)
  obtain x s1 where body: "performSearchAndGetHtmlBody env cl a h saveToFile outputPath s = (x, s1)"
    by (cases "performSearchAndGetHtmlBody env cl a h saveToFile outputPath s")
  from issuesD [OF noRead_htmlBody body]
  obtain cs where cs: "trace s1 = trace s @ cs" "list_all (\<lambda>c. \<not> readsFile c) cs" by blast
  show ?case
  proof (cases "x = Inl Restart")
    case True
    with body Cons.prems
    have "performSearchAndGetHtml env cl rest False saveToFile outputPath s1 = Some (r, s')" by simp
    from Cons.IH [OF this] cs show ?thesis by auto
  next
    case False
    with body Cons.prems have "s' = s1" by (auto split: sum.splits exit.splits)
    with cs show ?thesis by auto
  qed
qed

section \<open>Browsers that existed before the call\<close>

lemma ownOnlyD:
  assumes "ownOnly ext Q m" and "ext < nextBrowser (s::sys)" and "m s = (r, s')"
  shows "ext < nextBrowser s'" and "\<exists>cs. trace s' = trace s @ cs \<and> BrowserClose ext \<notin> set cs"
    and "r = Inr v \<Longrightarrow> Q v"
  using assms by (auto simp: ownOnly_def dest!: spec [of _ s])

lemma ownOnly_weaken: "ownOnly ext Q m \<Longrightarrow> (\<And>v. Q v \<Longrightarrow> R v) \<Longrightarrow> ownOnly ext R m"
  by (fastforce simp: ownOnly_def)

lemma ownOnly_ret: "Q x \<Longrightarrow> ownOnly ext Q (ret x)"
  by (simp add: ownOnly_def ret_def)

lemma ownOnly_throwErr: "ownOnly ext Q (throwErr e)"
  by (simp add: ownOnly_def throwErr_def)

lemma ownOnly_restart: "ownOnly ext Q restart"
  by (simp add: ownOnly_def restart_def)

lemma ownOnly_gets: "(\<And>s. Q (g s)) \<Longrightarrow> ownOnly ext Q (gets g)"
  by (simp add: ownOnly_def gets_def)

lemma ownOnly_modify:
  "(\<And>s. trace (g s) = trace s) \<Longrightarrow> (\<And>s. nextBrowser (g s) = nextBrowser s) \<Longrightarrow>
   ownOnly ext (\<lambda>u. True) (modify g)"
  by (simp add: ownOnly_def modify_def)

lemma ownOnly_callExt: "c \<noteq> BrowserClose ext \<Longrightarrow> ownOnly ext (\<lambda>u. True) (callExt env c)"
  by (simp add: ownOnly_def callExt_def split: option.splits)

lemma ownOnly_bind:
  assumes m: "ownOnly ext Q m" and g: "\<And>v. Q v \<Longrightarrow> ownOnly ext R (g v)"
  shows "ownOnly ext R (bind m g)"
  unfolding ownOnly_def
proof (intro allI impI)
  fix s :: sys
  assume ext: "ext < nextBrowser s"
  obtain r s1 where ms: "m s = (r, s1)" by (cases "m s")
  note m1 = ownOnlyD [OF m ext ms]
  from m1(2) obtain cs where cs: "trace s1 = trace s @ cs" "BrowserClose ext \<notin> set cs" by blast
  show "case bind m g s of (r, s') \<Rightarrow>
          ext < nextBrowser s' \<and>
          (\<exists>cs. trace s' = trace s @ cs \<and> BrowserClose ext \<notin> set cs) \<and>
          (\<forall>v. r = Inr v \<longrightarrow> R v)"
  proof (cases r)
    case (Inl x)
    with ms m1(1) cs show ?thesis by (auto simp: bind_def)
  next
    case (Inr v)
    obtain r2 s2 where gs: "g v s1 = (r2, s2)" by (cases "g v s1")
    note g1 = ownOnlyD [OF g [OF m1(3) [OF Inr]] m1(1) gs]
    from g1(2) obtain ds where "trace s2 = trace s1 @ ds" "BrowserClose ext \<notin> set ds" by blast
    with cs have "trace s2 = trace s @ (cs @ ds) \<and> BrowserClose ext \<notin> set (cs @ ds)" by simp
    then have "\<exists>es. trace s2 = trace s @ es \<and> BrowserClose ext \<notin> set es" by blast
    with ms Inr gs g1(1) g1(3) show ?thesis by (auto simp: bind_def)
  qed
qed

lemma ownOnly_thenDo: "ownOnly ext Q m \<Longrightarrow> ownOnly ext R k \<Longrightarrow> ownOnly ext R (thenDo m k)"
  unfolding thenDo_def by (rule ownOnly_bind)

lemma ownOnly_tryCatch:
  assumes m: "ownOnly ext Q m" and h: "\<And>e. ownOnly ext Q (h e)"
  shows "ownOnly ext Q (tryCatch m h)"
  unfolding ownOnly_def
proof (intro allI impI)
  fix s :: sys
  assume ext: "ext < nextBrowser s"
  obtain r s1 where ms: "m s = (r, s1)" by (cases "m s")
  note m1 = ownOnlyD [OF m ext ms]
  from m1(2) obtain cs where cs: "trace s1 = trace s @ cs" "BrowserClose ext \<notin> set cs" by blast
  show "case tryCatch m h s of (r, s') \<Rightarrow>
          ext < nextBrowser s' \<and>
          (\<exists>cs. trace s' = trace s @ cs \<and> BrowserClose ext \<notin> set cs) \<and>
          (\<forall>v. r = Inr v \<longrightarrow> Q v)"
  proof (cases "\<exists>e. r = Inl (Thrown e)")
    case True
    then obtain e where e: "r = Inl (Thrown e)" by blast
    obtain r2 s2 where hs: "h e s1 = (r2, s2)" by (cases "h e s1")
    note h1 = ownOnlyD [OF h m1(1) hs]
    from h1(2) obtain ds where "trace s2 = trace s1 @ ds" "BrowserClose ext \<notin> set ds" by blast
    with cs have "trace s2 = trace s @ (cs @ ds) \<and> BrowserClose ext \<notin> set (cs @ ds)" by simp
    then have "\<exists>es. trace s2 = trace s @ es \<and> BrowserClose ext \<notin> set es" by blast
    with ms e hs h1(1) h1(3) show ?thesis by (auto simp: tryCatch_def)
  next
    case False
    with ms m1 show ?thesis
      by (auto simp: tryCatch_def split: sum.splits exit.splits)
  qed
qed

lemma ownOnly_calls: "BrowserClose ext \<notin> set cs \<Longrightarrow> ownOnly ext (\<lambda>u. True) (calls env cs)"
  by (induction cs) (auto intro!: ownOnly_ret ownOnly_thenDo ownOnly_callExt)

lemma ownOnly_launch: "ownOnly ext (\<lambda>b. b \<noteq> ext) (launch env h)"
  by (auto simp: ownOnly_def launch_def thenDo_def bind_def callExt_def split: option.splits)

lemmas ownOnly_intros = ownOnly_ret ownOnly_throwErr ownOnly_restart ownOnly_gets ownOnly_modify
  ownOnly_callExt ownOnly_bind ownOnly_thenDo ownOnly_tryCatch ownOnly_calls

lemma ownOnly_escalate:
  assumes "p \<or> b \<noteq> ext"
  shows "ownOnly ext (\<lambda>u. True) (escalate env b p c)"
proof -
  have new: "ownOnly ext (\<lambda>u. True)
      (tryCatch (thenDo (calls env [NewContext n c, NewPage n, BrowserClose n]) restart)
         (\<lambda>error. thenDo (callExt env (BrowserClose n)) (throwErr error)))"
    if "n \<noteq> ext" for n
    using that by (auto intro!: ownOnly_intros)
  have provided: "ownOnly ext (\<lambda>u. True)
      (bind (launch env False) (\<lambda>newBrowser.
         tryCatch (thenDo (calls env [NewContext newBrowser c, NewPage newBrowser,
                                      BrowserClose newBrowser]) restart)
           (\<lambda>error. thenDo (callExt env (BrowserClose newBrowser)) (throwErr error))))"
    by (rule ownOnly_bind [OF ownOnly_launch]) (rule new)
  have own: "ownOnly ext (\<lambda>u. True) (thenDo (callExt env (BrowserClose b)) restart)"
    if "b \<noteq> ext"
    using that by (auto intro!: ownOnly_intros)
  show ?thesis
    unfolding escalate_def using assms provided own
    by (auto intro!: ownOnly_thenDo [where Q = "\<lambda>u. True"] ownOnly_callExt ownOnly_ret
        ownOnly_restart)
qed

lemma ownOnly_findSearchInput: "ownOnly ext (\<lambda>u. True) (findSearchInput env a sels)"
  by (induction sels) (auto intro!: ownOnly_intros)

lemma ownOnly_waitForResults: "ownOnly ext (\<lambda>u. True) (waitForResults env sels)"
  by (induction sels) (auto intro!: ownOnly_intros)

lemma ownOnly_selectDomain: "ownOnly ext (\<lambda>u. True) (selectDomain a)"
  unfolding selectDomain_def
  by (auto intro!: ownOnly_bind [where Q = "\<lambda>u. True"] ownOnly_thenDo [where Q = "\<lambda>u. True"]
      ownOnly_gets ownOnly_ret ownOnly_modify simp: Let_def split: option.splits)

lemma ownOnly_navigate:
  assumes "p \<or> b \<noteq> ext"
  shows "ownOnly ext (\<lambda>u. True) (navigate env a h b p c)"
  unfolding navigate_def using assms
  by (auto intro!: ownOnly_bind [OF ownOnly_selectDomain] ownOnly_thenDo [where Q = "\<lambda>u. True"]
      ownOnly_callExt ownOnly_ret ownOnly_escalate)

lemma ownOnly_submitQuery:
  assumes "p \<or> b \<noteq> ext"
  shows "ownOnly ext (\<lambda>u. True) (submitQuery env cl a h b p c)"
  unfolding submitQuery_def using assms
  by (auto intro!: ownOnly_bind [OF ownOnly_findSearchInput] ownOnly_thenDo [where Q = "\<lambda>u. True"]
      ownOnly_callExt ownOnly_ret ownOnly_throwErr ownOnly_escalate)

lemma ownOnly_awaitResults:
  assumes "p \<or> b \<noteq> ext"
  shows "ownOnly ext (\<lambda>u. True) (awaitResults env a h b p c)"
  unfolding awaitResults_def using assms
  by (auto intro!: ownOnly_bind [OF ownOnly_waitForResults] ownOnly_thenDo [where Q = "\<lambda>u. True"]
      ownOnly_callExt ownOnly_ret ownOnly_throwErr ownOnly_escalate)

lemma ownOnly_extractStep: "ownOnly ext (\<lambda>u. True) (extractStep env cl a)"
  unfolding extractStep_def
  by (cases "extractResults (renderedPage a) (limit cl)")
     (auto intro!: ownOnly_thenDo [where Q = "\<lambda>u. True"] ownOnly_callExt ownOnly_ret
        ownOnly_throwErr)

lemma ownOnly_pipeline:
  assumes "p \<or> b \<noteq> ext"
  shows "ownOnly ext (\<lambda>u. True) (pipeline env cl a h b p c)"
  unfolding pipeline_def using assms
  by (auto intro!: ownOnly_thenDo [where Q = "\<lambda>u. True"] ownOnly_navigate ownOnly_submitQuery
      ownOnly_awaitResults ownOnly_extractStep)

lemma ownOnly_ensureDir: "ownOnly ext (\<lambda>u. True) (ensureDir env d)"
  unfolding ensureDir_def
  by (auto intro!: ownOnly_bind [where Q = "\<lambda>u. True"] ownOnly_thenDo [where Q = "\<lambda>u. True"]
      ownOnly_gets ownOnly_ret ownOnly_modify ownOnly_callExt)

lemma ownOnly_saveBlock: "ownOnly ext (\<lambda>u. True) (saveBlock env cl a)"
  unfolding saveBlock_def saveState_def writeFingerprint_def
  by (auto intro!: ownOnly_tryCatch ownOnly_thenDo [where Q = "\<lambda>u. True"] ownOnly_ensureDir
      ownOnly_ret ownOnly_modify ownOnly_callExt)

lemma ownOnly_closeOwnBrowser:
  assumes "p \<or> b \<noteq> ext"
  shows "ownOnly ext (\<lambda>u. True) (closeOwnBrowser env b p)"
  unfolding closeOwnBrowser_def using assms by (auto intro!: ownOnly_ret ownOnly_callExt)

lemma ownOnly_resolveContextOptions: "ownOnly ext (\<lambda>u. True) (resolveContextOptions env cl a)"
  unfolding resolveContextOptions_def
  by (auto intro!: ownOnly_bind [where Q = "\<lambda>u. True"] ownOnly_thenDo [where Q = "\<lambda>u. True"]
      ownOnly_gets ownOnly_ret ownOnly_modify simp: Let_def split: option.splits)

lemma ownOnly_prepareBrowser:
  "ownOnly ext (\<lambda>(b, p, c). p \<or> b \<noteq> ext) (prepareBrowser env cl a h)"
proof -
  have first: "ownOnly ext (\<lambda>(b, p). p \<or> b \<noteq> ext)
      (case existingBrowser cl of Some b \<Rightarrow> ret (b, True)
       | None \<Rightarrow> bind (launch env h) (\<lambda>b. ret (b, False)))"
    by (auto intro!: ownOnly_ret ownOnly_bind [OF ownOnly_launch] split: option.splits)
  have second: "ownOnly ext (\<lambda>u. True) readSavedState"
    unfolding readSavedState_def
    by (auto intro!: ownOnly_bind [where Q = "\<lambda>u. True"] ownOnly_gets ownOnly_ret ownOnly_throwErr)
  show ?thesis
    unfolding prepareBrowser_def
    by (rule ownOnly_bind [OF first])
       (auto intro!: ownOnly_thenDo [OF second] ownOnly_bind [OF ownOnly_resolveContextOptions]
          ownOnly_thenDo [where Q = "\<lambda>u. True"] ownOnly_callExt ownOnly_ret)
qed

lemma ownOnly_performSearchBody: "ownOnly ext (\<lambda>u. True) (performSearchBody env cl a h)"
  unfolding performSearchBody_def tryBlock_def catchBlock_def
  by (rule ownOnly_bind [OF ownOnly_prepareBrowser])
     (auto intro!: ownOnly_tryCatch ownOnly_bind [where Q = "\<lambda>u. True"]
        ownOnly_thenDo [where Q = "\<lambda>u. True"] ownOnly_pipeline ownOnly_saveBlock
        ownOnly_closeOwnBrowser ownOnly_ret)

lemma performSearch_never_closes_existing:
  "ext < nextBrowser (s::sys) \<Longrightarrow> performSearch env cl attempts h s = Some (r, s') \<Longrightarrow>
   \<exists>cs. trace s' = trace s @ cs \<and> BrowserClose ext \<notin> set cs"
proof (induction attempts arbitrary: h s)
  case Nil
  then show ?case by simp
next
  case (Cons a rest)
  obtain x s1 where body: "performSearchBody env cl a h s = (x, s1)"
    by (cases "performSearchBody env cl a h s")
  note b1 = ownOnlyD [OF ownOnly_performSearchBody Cons.prems(1) body]
  from b1(2) obtain cs where cs: "trace s1 = trace s @ cs" "BrowserClose ext \<notin> set cs" by blast
  show ?case
  proof (cases "x = Inl Restart")
    case True
    with body Cons.prems(2) have "performSearch env cl rest False s1 = Some (r, s')" by simp
    from Cons.IH [OF b1(1) this] obtain ds where "trace s' = trace s1 @ ds" "BrowserClose ext \<notin> set ds"
      by blast
    with cs have "trace s' = trace s @ (cs @ ds) \<and> BrowserClose ext \<notin> set (cs @ ds)" by simp
    then show ?thesis by blast
  next
    case False
    with body Cons.prems(2) have "s' = s1" by (auto split: sum.splits exit.splits)
    with cs show ?thesis by blast
  qed
qed

lemma loadSavedState_trace:
  "nextBrowser (snd (loadSavedState env sf fp s)) = nextBrowser s \<and>
   (\<exists>cs. trace (snd (loadSavedState env sf fp s)) = trace s @ cs \<and> set cs \<subseteq> {ReadFileSync fp})"
  by (auto simp: loadSavedState_def readFingerprint_def tryCatch_def thenDo_def bind_def gets_def
      modify_def ret_def throwErr_def callExt_def split: option.splits parsed.splits)

section \<open>Where a run saves\<close>

lemma any_closeOwnBrowser: "issues (\<lambda>c. True) (closeOwnBrowser env b p)"
  unfolding closeOwnBrowser_def by (auto intro!: issues_intros)

lemma any_saveBlock: "issues (\<lambda>c. True) (saveBlock env cl a)"
  unfolding saveBlock_def saveState_def writeFingerprint_def ensureDir_def
  by (auto intro!: issues_intros)



lemma noSave_prepareBrowser: "issues (\<lambda>c. \<not> isSaveCall c) (prepareBrowser env cl a h)"
  unfolding prepareBrowser_def resolveContextOptions_def readSavedState_def
  by (auto intro!: issues_intros simp: Let_def split: option.splits)

text \<open>After the save block of an enabled run and an own browser's closing.\<close>

lemma saved_then_closed:
  assumes "\<not> noSaveState cl"
    and "closeOwnBrowser env b p (snd (saveBlock env cl a s)) = (u, s')"
  shows "\<exists>cs. trace s' = trace s @ firstSaveCall env cl s # cs" and "u \<noteq> Inl Restart"
proof -
  from saveBlock_attempts [OF assms(1), of env a s]
  obtain cs where cs: "trace (snd (saveBlock env cl a s)) = trace s @ firstSaveCall env cl s # cs"
    by blast
  from issuesD [OF any_closeOwnBrowser assms(2)]
  obtain ds where "trace s' = trace (snd (saveBlock env cl a s)) @ ds" by blast
  with cs have "trace s' = trace s @ firstSaveCall env cl s # (cs @ ds)" by simp
  then show "\<exists>cs. trace s' = trace s @ firstSaveCall env cl s # cs" by blast
  from noRestart_closeOwnBrowser [of env b p] assms(2) show "u \<noteq> Inl Restart"
    by (auto simp: noRestart_def dest: spec [of _ "snd (saveBlock env cl a s)"])
qed





subsection \<open>The markup-fetch operation\<close>

lemma closeOwnBrowser_own: "closeOwnBrowser env b False = callExt env (BrowserClose b)"
  by (simp add: closeOwnBrowser_def)

lemma any_htmlCatchBlock: "issues (\<lambda>c. True) (htmlCatchBlock env cl a b e)"
  unfolding htmlCatchBlock_def
  by (auto intro!: issues_intros any_saveBlock)

lemma noRestart_htmlCatchBlock: "noRestart (htmlCatchBlock env cl a b e)"
  unfolding htmlCatchBlock_def
  by (auto intro!: noRestart_intros noRestart_saveBlock)

lemma performSearchAndGetHtml_saves_on_failure:
  assumes on: "\<not> noSaveState cl"
    and prep: "prepareBrowser env cl a h s = (Inr (b, p, c), s1)"
    and pl: "htmlPipeline env cl a h b c saveToFile outputPath s1 = (Inl (Thrown e), s2)"
  shows "\<exists>r s' cs. performSearchAndGetHtml env cl (a # rest) h saveToFile outputPath s = Some (r, s') \<and>
           trace s' = trace s2 @ firstSaveCall env cl s2 # cs \<and>
           (throws env (length (trace (snd (saveBlock env cl a s2)))) (BrowserClose b) = None
              \<longrightarrow> r = Raised (htmlFailedPrefix @ e))"
proof -
  obtain u s' where cl: "callExt env (BrowserClose b) (snd (saveBlock env cl a s2)) = (u, s')"
    by (cases "callExt env (BrowserClose b) (snd (saveBlock env cl a s2))")
  then have cl': "closeOwnBrowser env b False (snd (saveBlock env cl a s2)) = (u, s')"
    by (simp add: closeOwnBrowser_own)
  note after = saved_then_closed [OF on cl']
  from after(1) obtain cs where cs: "trace s' = trace s2 @ firstSaveCall env cl s2 # cs" by blast
  from pl have "htmlTryBlock env cl a h b c saveToFile outputPath s1 = (Inl (Thrown e), s2)"
    by (simp add: htmlTryBlock_run)
  then have body: "performSearchAndGetHtmlBody env cl a h saveToFile outputPath s =
      htmlCatchBlock env cl a b e s2"
    by (simp add: htmlBody_prepared [OF prep] tryCatch_Thrown)
  show ?thesis
  proof (cases u)
    case (Inr v)
    with body cl have "performSearchAndGetHtml env cl (a # rest) h saveToFile outputPath s =
        Some (Raised (htmlFailedPrefix @ e), s')"
      by (simp add: htmlCatchBlock_run)
    then show ?thesis using cs by (intro exI conjI impI) (assumption | rule refl)+
  next
    case (Inl ex)
    with after(2) obtain m where m: "ex = Thrown m" by (cases ex) auto
    with Inl body cl have run: "performSearchAndGetHtml env cl (a # rest) h saveToFile outputPath s
        = Some (Raised m, s')"
      by (simp add: htmlCatchBlock_run)
    have neg: "throws env (length (trace (snd (saveBlock env cl a s2)))) (BrowserClose b) \<noteq> None"
      using cl Inl by (auto simp: callExt_def split: option.splits)
    show ?thesis
    proof (intro exI conjI impI)
      show "performSearchAndGetHtml env cl (a # rest) h saveToFile outputPath s = Some (Raised m, s')"
        by (rule run)
      show "trace s' = trace s2 @ firstSaveCall env cl s2 # cs" by (rule cs)
      assume "throws env (length (trace (snd (saveBlock env cl a s2)))) (BrowserClose b) = None"
      with neg show "Raised m = Raised (htmlFailedPrefix @ e)" by blast
    qed
  qed
qed

lemma performSearchAndGetHtml_saves_on_success:
  assumes on: "\<not> noSaveState cl"
    and prep: "prepareBrowser env cl a h s = (Inr (b, p, c), s1)"
    and pl: "htmlPipeline env cl a h b c saveToFile outputPath s1 = (Inr response, s2)"
  shows "\<exists>r s' cs. performSearchAndGetHtml env cl (a # rest) h saveToFile outputPath s = Some (r, s') \<and>
           trace s' = trace s2 @ firstSaveCall env cl s2 # cs \<and>
           (throws env (length (trace (snd (saveBlock env cl a s2)))) (BrowserClose b) = None
              \<longrightarrow> r = Returned response)"
proof -
  obtain u s3 where cl: "callExt env (BrowserClose b) (snd (saveBlock env cl a s2)) = (u, s3)"
    by (cases "callExt env (BrowserClose b) (snd (saveBlock env cl a s2))")
  then have cl': "closeOwnBrowser env b False (snd (saveBlock env cl a s2)) = (u, s3)"
    by (simp add: closeOwnBrowser_own)
  note after = saved_then_closed [OF on cl']
  from after(1) obtain cs where cs: "trace s3 = trace s2 @ firstSaveCall env cl s2 # cs" by blast
  have body: "performSearchAndGetHtmlBody env cl a h saveToFile outputPath s =
      tryCatch (htmlTryBlock env cl a h b c saveToFile outputPath) (htmlCatchBlock env cl a b) s1"
    by (rule htmlBody_prepared [OF prep])
  show ?thesis
  proof (cases u)
    case (Inr v)
    with pl cl have "htmlTryBlock env cl a h b c saveToFile outputPath s1 = (Inr response, s3)"
      by (simp add: htmlTryBlock_run)
    then have "performSearchAndGetHtmlBody env cl a h saveToFile outputPath s = (Inr response, s3)"
      unfolding body by (rule tryCatch_Inr)
    then have "performSearchAndGetHtml env cl (a # rest) h saveToFile outputPath s =
        Some (Returned response, s3)"
      by simp
    then show ?thesis using cs by (intro exI conjI impI) (assumption | rule refl)+
  next
    case (Inl ex)
    with after(2) obtain m where m: "ex = Thrown m" by (cases ex) auto
    with Inl pl cl have "htmlTryBlock env cl a h b c saveToFile outputPath s1 = (Inl (Thrown m), s3)"
      by (simp add: htmlTryBlock_run)
    then have handled: "performSearchAndGetHtmlBody env cl a h saveToFile outputPath s =
        htmlCatchBlock env cl a b m s3"
      unfolding body by (rule tryCatch_Thrown)
    obtain y s' where cb: "htmlCatchBlock env cl a b m s3 = (y, s')"
      by (cases "htmlCatchBlock env cl a b m s3")
    from issuesD [OF any_htmlCatchBlock cb] obtain ds where "trace s' = trace s3 @ ds" by blast
    with cs have tr: "trace s' = trace s2 @ firstSaveCall env cl s2 # (cs @ ds)" by simp
    from noRestart_htmlCatchBlock [of env cl a b m] cb have "y \<noteq> Inl Restart"
      by (auto simp: noRestart_def dest: spec [of _ s3])
    have "\<exists>r. performSearchAndGetHtml env cl (a # rest) h saveToFile outputPath s = Some (r, s')"
    proof (cases y)
      case (Inr v)
      with handled cb show ?thesis by simp
    next
      case inl: (Inl ex2)
      with \<open>y \<noteq> Inl Restart\<close> obtain m2 where "ex2 = Thrown m2" by (cases ex2) auto
      with inl handled cb show ?thesis by simp
    qed
    then obtain r where run: "performSearchAndGetHtml env cl (a # rest) h saveToFile outputPath s
        = Some (r, s')" by blast
    have neg: "throws env (length (trace (snd (saveBlock env cl a s2)))) (BrowserClose b) \<noteq> None"
      using cl Inl by (auto simp: callExt_def split: option.splits)
    show ?thesis
    proof (intro exI conjI impI)
      show "performSearchAndGetHtml env cl (a # rest) h saveToFile outputPath s = Some (r, s')"
        by (rule run)
      show "trace s' = trace s2 @ firstSaveCall env cl s2 # (cs @ ds)" by (rule tr)
      assume "throws env (length (trace (snd (saveBlock env cl a s2)))) (BrowserClose b) = None"
      with neg show "r = Returned response" by blast
    qed
  qed
qed

lemma performSearchAndGetHtml_no_save_before_try:
  assumes "prepareBrowser env cl a h s = (Inl (Thrown e), s1)"
  shows "performSearchAndGetHtml env cl (a # rest) h saveToFile outputPath s = Some (Raised e, s1)"
    and "\<exists>cs. trace s1 = trace s @ cs \<and> list_all (\<lambda>c. \<not> isSaveCall c) cs"
proof -
  show "performSearchAndGetHtml env cl (a # rest) h saveToFile outputPath s = Some (Raised e, s1)"
    by (simp add: htmlBody_unprepared [OF assms])
  show "\<exists>cs. trace s1 = trace s @ cs \<and> list_all (\<lambda>c. \<not> isSaveCall c) cs"
    using noSave_prepareBrowser assms by (rule issuesD)
qed

section \<open>Claims about the generated identity\<close>

text \<open>
  Claim C2. The timezone of the generated identity is read off a fixed, ordered chain
  of offset ranges, the first matching range winning. The claim adds that the ranges
  are mutually exclusive and that an offset of -540 minutes (UTC+9) maps to the UTC+9
  timezone. The source's comments name the first range UTC+8 and the second UTC+9, but
  the first guard reaches down to -600 (exclusive), so -540 satisfies both guards and
  the first one wins: the code evaluates to Asia/Shanghai at -540, not to Asia/Seoul.
  The theorem records that evaluation and the two ranges the offset satisfies.
\<close>

theorem timezone_of_utc9_offset:
  "timezoneId (getHostMachineConfig None
      \<lparr> env_LANG = None, getTimezoneOffset = -540, getHours = 12, os_platform = ''linux'' \<rparr>)
     = ''Asia/Shanghai'' \<and>
   matchingRanges (-540) = [''Asia/Shanghai'', ''Asia/Seoul'']"
  by (simp add: timezoneId_getHostMachineConfig timezoneOfOffset_def matchingRanges_def
      timezoneRanges_def)

text \<open>
  Claim C9. For every host wall-clock hour h (Date.getHours gives 0 to 23), the
  generated identity has colorScheme dark exactly when h is in [19,24) or [0,7), and
  light otherwise; and this generated identity is the one a run uses when no
  fingerprint is stored: the context options take its colorScheme and it is put into
  savedState.
\<close>

theorem colorScheme_by_hour:
  assumes "0 \<le> getHours (hostSignals env)" and "getHours (hostSignals env) < 24"
  shows
    "(colorScheme (getHostMachineConfig userLocale (hostSignals env)) = Dark \<longleftrightarrow>
        getHours (hostSignals env) \<in> {19..<24} \<union> {0..<7}) \<and>
     (colorScheme (getHostMachineConfig userLocale (hostSignals env)) = Light \<longleftrightarrow>
        getHours (hostSignals env) \<in> {7..<19}) \<and>
     (fingerprint (savedState s) = None \<longrightarrow>
        (\<exists>contextOptions s'.
           resolveContextOptions env cl a s = (Inr contextOptions, s') \<and>
           co_colorScheme contextOptions =
             colorScheme (getHostMachineConfig (Some (localeOption cl)) (hostSignals env)) \<and>
           fingerprint (savedState s') =
             Some (getHostMachineConfig (Some (localeOption cl)) (hostSignals env))))"
  using assms resolveContextOptions_fresh [of s env cl a]
  by (auto simp: colorScheme_getHostMachineConfig colorSchemeOfHour_def contextOf_def
      freshIdentity_def)

theorem colorScheme_by_hour_witness:
  "colorScheme (getHostMachineConfig None
      \<lparr> env_LANG = None, getTimezoneOffset = -540, getHours = 2, os_platform = ''linux'' \<rparr>) = Dark \<and>
   colorScheme (getHostMachineConfig None
      \<lparr> env_LANG = None, getTimezoneOffset = -540, getHours = 14, os_platform = ''linux'' \<rparr>) = Light"
proof -
  let ?at = "\<lambda>h. exampleEnv\<lparr> hostSignals :=
      \<lparr> env_LANG = None, getTimezoneOffset = -540, getHours = h, os_platform = ''linux'' \<rparr> \<rparr>"
  have "colorScheme (getHostMachineConfig None (hostSignals (?at 2))) = Dark"
    using colorScheme_by_hour [of "?at 2" None] by simp
  moreover have "colorScheme (getHostMachineConfig None (hostSignals (?at 14))) \<noteq> Dark"
    using colorScheme_by_hour [of "?at 14" None] by simp
  ultimately show ?thesis
    by (cases "colorScheme (getHostMachineConfig None (hostSignals (?at 14)))") simp_all
qed

section \<open>Claims about the extraction callback\<close>

text \<open>
  Claim C3, as stated: every returned record has a link starting with an HTTP(S)
  scheme. The primary pass tests only that the link begins with the four characters
  http (line 848), and the fallback pass takes the href property of an anchor whose
  href attribute begins with http (lines 887 and 895) without testing the property.
  On schemePage the callback returns a link with the scheme httpx from the primary
  pass and a link with the scheme ftp from the fallback pass:
\<close>

theorem extractResults_accepts_other_schemes:
  "extractResults schemePage 10 =
     Inr [\<lparr> title = ''Evil'', link = ''httpx://evil.test/'', snippet = [] \<rparr>,
          \<lparr> title = ''Docs'', link = ''ftp://files.test/httpdocs'', snippet = [] \<rparr>]"
  by code_simp

text \<open>
  Claim C3, amended. Whenever the callback returns, its result is the first
  maxResults records of the stream of candidates (the primary candidates in the order
  of the selector sets and of the document, then the fallback candidates in document
  order) after all but the first record of each link have been dropped: no two records
  have the same link, and the first occurrence wins. Every record has a non-empty
  title and a non-empty link. A record is a primary candidate, and then its link
  begins with the characters http, or a fallback candidate, and then its link is the
  href property of an HTMLAnchorElement matched by the selector
  \<^verbatim>\<open>a[href^='http']\<close>; nothing else about the scheme is tested.
\<close>

theorem extractResults_first_record_per_link:
  "extractResults d maxResults = Inr rs \<longrightarrow>
     rs = take (nat maxResults) (firstPerLink (primaryCandidates d @ fallbackCandidates d)) \<and>
     distinct (map link rs) \<and>
     (\<forall>r \<in> set rs.
        title r \<noteq> [] \<and> link r \<noteq> [] \<and>
        (r \<in> set (primaryCandidates d) \<and> prefix ''http'' (link r) \<or>
         r \<in> set (fallbackCandidates d) \<and>
           (\<exists>el \<in> set (document_querySelectorAll d anchorSelector).
              instanceofHTMLAnchorElement d el \<and> link r = href d el)))"
proof (intro impI conjI ballI)
  assume run: "extractResults d maxResults = Inr rs"
  show "rs = take (nat maxResults) (firstPerLink (primaryCandidates d @ fallbackCandidates d))"
    using run by (rule extractResults_stream)
  show "distinct (map link rs)"
    using run by (rule extractResults_distinct)
  fix r assume "r \<in> set rs"
  with run have src: "r \<in> set (primaryCandidates d) \<or> r \<in> set (fallbackCandidates d)"
    by (rule extractResults_members)
  with primaryCandidates_props [of r d] fallbackCandidates_props [of r d]
  show "title r \<noteq> []" and "link r \<noteq> []" by blast+
  from src primaryCandidates_props [of r d] fallbackCandidates_props [of r d]
  show "r \<in> set (primaryCandidates d) \<and> prefix ''http'' (link r) \<or>
        r \<in> set (fallbackCandidates d) \<and>
          (\<exists>el \<in> set (document_querySelectorAll d anchorSelector).
             instanceofHTMLAnchorElement d el \<and> link r = href d el)"
    by blast
qed

theorem extractResults_first_record_per_link_witness:
  "extractResults examplePage 10 =
     Inr [\<lparr> title = ''Example Domain'', link = ''https://example.com/'',
            snippet = ''An example snippet'' \<rparr>,
          \<lparr> title = ''Container link'', link = ''https://container.example/'',
            snippet = ''An alternative snippet'' \<rparr>,
          \<lparr> title = ''Example Org'', link = ''https://example.org/a'',
            snippet = ''A parent text that is longer than twenty'' \<rparr>,
          \<lparr> title = ''Nine'', link = ''https://nine.example/'', snippet = [] \<rparr>,
          \<lparr> title = ''Untitled'', link = ''https://untitled.example/'', snippet = [] \<rparr>] \<and>
   primaryCandidates examplePage =
     [\<lparr> title = ''Example Domain'', link = ''https://example.com/'',
        snippet = ''An example snippet'' \<rparr>,
      \<lparr> title = ''Second title'', link = ''https://example.com/'',
        snippet = ''A generic text of more than twenty'' \<rparr>,
      \<lparr> title = ''Container link'', link = ''https://container.example/'',
        snippet = ''An alternative snippet'' \<rparr>] \<and>
   map title (take 10 (firstPerLink (primaryCandidates examplePage @ fallbackCandidates examplePage)))
     = [''Example Domain'', ''Container link'', ''Example Org'', ''Nine'', ''Untitled'']"
proof -
  have run: "extractResults examplePage 10 =
     Inr [\<lparr> title = ''Example Domain'', link = ''https://example.com/'',
            snippet = ''An example snippet'' \<rparr>,
          \<lparr> title = ''Container link'', link = ''https://container.example/'',
            snippet = ''An alternative snippet'' \<rparr>,
          \<lparr> title = ''Example Org'', link = ''https://example.org/a'',
            snippet = ''A parent text that is longer than twenty'' \<rparr>,
          \<lparr> title = ''Nine'', link = ''https://nine.example/'', snippet = [] \<rparr>,
          \<lparr> title = ''Untitled'', link = ''https://untitled.example/'', snippet = [] \<rparr>]"
    by code_simp
  have cands: "primaryCandidates examplePage =
     [\<lparr> title = ''Example Domain'', link = ''https://example.com/'',
        snippet = ''An example snippet'' \<rparr>,
      \<lparr> title = ''Second title'', link = ''https://example.com/'',
        snippet = ''A generic text of more than twenty'' \<rparr>,
      \<lparr> title = ''Container link'', link = ''https://container.example/'',
        snippet = ''An alternative snippet'' \<rparr>]"
    by code_simp
  from extractResults_first_record_per_link [of examplePage 10] run
  have "map title (take 10 (firstPerLink (primaryCandidates examplePage @ fallbackCandidates examplePage)))
     = [''Example Domain'', ''Container link'', ''Example Org'', ''Nine'', ''Untitled'']"
    by simp
  with run cands show ?thesis by simp
qed







section \<open>Claims about the escalation\<close>

text \<open>
  Claim C1. When a challenge page is detected in headless mode and the browser was
  supplied by the caller, the caller's instance is never closed; a new owned instance
  is created and the operation restarts from navigation in headed mode. The source's
  comments at this branch say the same (stop using the caller's instance, run the
  search with the new instance). The code launches the headed instance, opens a
  context and a page in it and closes it at once, and then calls performSearch(false),
  which takes the caller's instance again: the headless flag is only read when
  performSearch launches a browser itself. In the run below browser 0 is the caller's
  and the first navigation lands on a challenge page: instance 1 is launched headed
  and closed without navigating, and the restarted navigation runs on instance 0.
  Instance 0 is not closed.
\<close>

theorem escalation_reuses_external_browser:
  "map_option (\<lambda>(r, s). browserEvents (trace s))
     (googleSearch exampleEnv ''isabelle'' defaultOptions (Some 0)
        [challengeAttempt, challengeAttempt] exampleSys)
   = Some [ContextOn 0, NavigatedOn 0, Launched False, ContextOn 1, Closed 1,
           ContextOn 0, NavigatedOn 0]"
  by code_simp

section \<open>Claims about persistence\<close>

text \<open>
  Claim C7. For every run with noSaveState = true, neither the session state file nor
  the fingerprint file is created or modified, whatever the outcome of the run.
  For googleSearch no file and no directory changes at all. getGoogleSearchPageHtml
  may write the markup file and the screenshot its caller asked for; the two state
  files are left as they were unless the caller named one of them as the output path
  (or the generated output path is one of them).
\<close>

theorem noSaveState_leaves_state_files:
  assumes "opt_noSaveState options = Some True"
  shows
    "(googleSearch env q options browserArg attempts s = Some (r, s') \<longrightarrow>
        files s' = files s \<and> dirs s' = dirs s) \<and>
     (getGoogleSearchPageHtml env q options saveToFile outputPath attempts s = Some (r', s'') \<and>
      (\<forall>a \<in> set attempts. saveToFile \<longrightarrow>
         outputFileOf a outputPath \<notin> {stateFileOf options, fingerprintFileOf options} \<and>
         pngPathOf (outputFileOf a outputPath) \<notin> {stateFileOf options, fingerprintFileOf options})
      \<longrightarrow>
      files s'' (stateFileOf options) = files s (stateFileOf options) \<and>
      files s'' (fingerprintFileOf options) = files s (fingerprintFileOf options))"
proof -
  let ?sf = "stateFileOf options"
  let ?fp = "fingerprintFileOf options"
  have html: "files s'' p = files s p"
    if run: "getGoogleSearchPageHtml env q options saveToFile outputPath attempts s = Some (r', s'')"
      and paths: "\<forall>a \<in> set attempts. saveToFile \<longrightarrow>
            outputFileOf a outputPath \<notin> {?sf, ?fp} \<and>
            pngPathOf (outputFileOf a outputPath) \<notin> {?sf, ?fp}"
      and p: "p = ?sf \<or> p = ?fp"
    for p
  proof (rule getGoogleSearchPageHtml_keeps_file [OF assms _ run])
    show "\<forall>a \<in> set attempts. saveToFile \<longrightarrow>
            p \<noteq> outputFileOf a outputPath \<and> p \<noteq> pngPathOf (outputFileOf a outputPath)"
      using paths p by auto
  qed
  show ?thesis
  proof (intro conjI impI)
    assume "googleSearch env q options browserArg attempts s = Some (r, s')"
    then show "files s' = files s" "dirs s' = dirs s"
      using googleSearch_keeps_files_dirs [OF assms] by blast+
  next
    assume h: "getGoogleSearchPageHtml env q options saveToFile outputPath attempts s = Some (r', s'') \<and>
         (\<forall>a \<in> set attempts. saveToFile \<longrightarrow>
            outputFileOf a outputPath \<notin> {?sf, ?fp} \<and>
            pngPathOf (outputFileOf a outputPath) \<notin> {?sf, ?fp})"
    then show "files s'' ?sf = files s ?sf" "files s'' ?fp = files s ?fp"
      using html [of ?sf] html [of ?fp] by blast+
  qed
qed

theorem noSaveState_leaves_state_files_witness:
  "(\<exists>r s'. googleSearch exampleEnv ''isabelle'' noSaveOptions None [challengeAttempt, clearAttempt]
              exampleSys = Some (r, s') \<and>
            files s' = files exampleSys \<and> dirs s' = dirs exampleSys) \<and>
   (\<exists>r s'. getGoogleSearchPageHtml exampleEnv ''isabelle'' noSaveOptions True None
              [challengeAttempt, clearAttempt] exampleSys = Some (r, s') \<and>
            files s' ''./browser-state.json'' = None \<and>
            files s' ''./browser-state-fingerprint.json'' = None)"
proof -
  have off: "opt_noSaveState noSaveOptions = Some True"
    by (simp add: noSaveOptions_def)
  obtain r s' where g: "googleSearch exampleEnv ''isabelle'' noSaveOptions None
      [challengeAttempt, clearAttempt] exampleSys = Some (r, s')"
    using googleSearch_returns by blast
  obtain r' s'' where h: "getGoogleSearchPageHtml exampleEnv ''isabelle'' noSaveOptions True None
      [challengeAttempt, clearAttempt] exampleSys = Some (r', s'')"
    using getGoogleSearchPageHtml_returns by blast
  have paths: "\<forall>a \<in> set [challengeAttempt, clearAttempt]. True \<longrightarrow>
      outputFileOf a None \<notin> {''./browser-state.json'', ''./browser-state-fingerprint.json''} \<and>
      pngPathOf (outputFileOf a None) \<notin> {''./browser-state.json'', ''./browser-state-fingerprint.json''}"
    by (simp add: outputFileOf_def pngPathOf_def challengeAttempt_def clearAttempt_def suffix_def)
  have names: "stateFileOf noSaveOptions = ''./browser-state.json''"
    "fingerprintFileOf noSaveOptions = ''./browser-state-fingerprint.json''"
    by (simp_all add: stateFileOf_def fingerprintFileOf_def noSaveOptions_def withDefault_def)
  from noSaveState_leaves_state_files [OF off, of exampleEnv "''isabelle''" None
      "[challengeAttempt, clearAttempt]" exampleSys r s' True None r' s''] g h paths
  have "files s' = files exampleSys \<and> dirs s' = dirs exampleSys"
    and "files s'' ''./browser-state.json'' = files exampleSys ''./browser-state.json'' \<and>
         files s'' ''./browser-state-fingerprint.json'' = files exampleSys ''./browser-state-fingerprint.json''"
    by (simp_all add: names)
  with g h show ?thesis
    by (auto simp: exampleSys_def)
qed

section \<open>Claims about errors\<close>

text \<open>
  Claim C6, as stated: on any fatal pipeline error googleSearch does not raise but
  returns a response with one synthetic record, while getGoogleSearchPageHtml raises
  the wrapped error. The try block of performSearch starts only after the browser, the
  context and the page exist, so a failure to launch the browser is raised by
  googleSearch as well:
\<close>

theorem googleSearch_raises_launch_failure:
  "map_option fst
     (googleSearch failingLaunchEnv ''isabelle'' defaultOptions None [clearAttempt, clearAttempt]
        exampleSys)
   = Some (Raised ''launch failed'')"
  by code_simp

text \<open>
  Claim C6, amended. An error thrown before the try block (launching the browser,
  creating the context or the page) is raised to the caller by both operations,
  unwrapped. An error thrown inside the try block is caught: performSearch of
  googleSearch then returns the query with exactly one synthetic record, whose snippet
  ends with the error's message, and performSearchAndGetHtml of getGoogleSearchPageHtml
  raises an error whose message is that message behind the wrapping prefix; both
  provided that closing the own browser in the catch block does not throw in turn.
\<close>

theorem errors_before_and_inside_try:
  "(fst (prepareBrowser env cl a headless s) = Inl (Thrown e) \<longrightarrow>
      performSearch env cl (a # rest) headless s =
        Some (Raised e, snd (prepareBrowser env cl a headless s)) \<and>
      performSearchAndGetHtml env cl (a # rest) headless saveToFile outputPath s =
        Some (Raised e, snd (prepareBrowser env cl a headless s))) \<and>
   (fst (prepareBrowser env cl a headless s) = Inr (browser, provided, contextOptions) \<longrightarrow>
      (let s1 = snd (prepareBrowser env cl a headless s);
           s2 = snd (tryBlock env cl a headless browser provided contextOptions s1);
           h2 = snd (htmlTryBlock env cl a headless browser contextOptions saveToFile outputPath s1)
       in (fst (tryBlock env cl a headless browser provided contextOptions s1) = Inl (Thrown e) \<and>
           (provided \<or>
            throws env (length (trace (snd (saveBlock env cl a s2)))) (BrowserClose browser) = None)
           \<longrightarrow>
           (\<exists>s'. performSearch env cl (a # rest) headless s =
                   Some (Returned \<lparr> query = searchQuery cl,
                            results = [\<lparr> title = failedTitle, link = [],
                                         snippet = failedSnippetPrefix @ e \<rparr>] \<rparr>, s'))) \<and>
          (fst (htmlTryBlock env cl a headless browser contextOptions saveToFile outputPath s1)
             = Inl (Thrown e) \<and>
           throws env (length (trace (snd (saveBlock env cl a h2)))) (BrowserClose browser) = None
           \<longrightarrow>
           (\<exists>s'. performSearchAndGetHtml env cl (a # rest) headless saveToFile outputPath s =
                   Some (Raised (htmlFailedPrefix @ e), s')))))"
proof (intro conjI impI)
  assume "fst (prepareBrowser env cl a headless s) = Inl (Thrown e)"
  then have p: "prepareBrowser env cl a headless s =
      (Inl (Thrown e), snd (prepareBrowser env cl a headless s))"
    by (cases "prepareBrowser env cl a headless s") simp
  show "performSearch env cl (a # rest) headless s =
      Some (Raised e, snd (prepareBrowser env cl a headless s))"
    by (simp add: performSearchBody_unprepared [OF p])
  show "performSearchAndGetHtml env cl (a # rest) headless saveToFile outputPath s =
      Some (Raised e, snd (prepareBrowser env cl a headless s))"
    by (simp add: htmlBody_unprepared [OF p])
next
  let ?s1 = "snd (prepareBrowser env cl a headless s)"
  assume "fst (prepareBrowser env cl a headless s) = Inr (browser, provided, contextOptions)"
  then have p: "prepareBrowser env cl a headless s = (Inr (browser, provided, contextOptions), ?s1)"
    by (cases "prepareBrowser env cl a headless s") simp
  have search: "\<exists>s'. performSearch env cl (a # rest) headless s =
        Some (Returned \<lparr> query = searchQuery cl,
                 results = [\<lparr> title = failedTitle, link = [], snippet = failedSnippetPrefix @ e \<rparr>] \<rparr>, s')"
    if t: "fst (tryBlock env cl a headless browser provided contextOptions ?s1) = Inl (Thrown e)"
      and c: "provided \<or> throws env (length (trace (snd (saveBlock env cl a
                (snd (tryBlock env cl a headless browser provided contextOptions ?s1))))))
                (BrowserClose browser) = None"
  proof -
    let ?s2 = "snd (tryBlock env cl a headless browser provided contextOptions ?s1)"
    from t have "tryBlock env cl a headless browser provided contextOptions ?s1 = (Inl (Thrown e), ?s2)"
      by (cases "tryBlock env cl a headless browser provided contextOptions ?s1") simp
    then have body: "performSearchBody env cl a headless s = catchBlock env cl a browser provided e ?s2"
      by (simp add: performSearchBody_prepared [OF p] tryCatch_Thrown)
    obtain u s3 where cl: "closeOwnBrowser env browser provided (snd (saveBlock env cl a ?s2)) = (u, s3)"
      by (cases "closeOwnBrowser env browser provided (snd (saveBlock env cl a ?s2))")
    with closeOwnBrowser_fst [OF c] have "u = Inr ()" by simp
    with cl body show ?thesis
      by (simp add: catchBlock_run errorResponse_def)
  qed
  have markup: "\<exists>s'. performSearchAndGetHtml env cl (a # rest) headless saveToFile outputPath s =
        Some (Raised (htmlFailedPrefix @ e), s')"
    if t: "fst (htmlTryBlock env cl a headless browser contextOptions saveToFile outputPath ?s1)
             = Inl (Thrown e)"
      and c: "throws env (length (trace (snd (saveBlock env cl a
                (snd (htmlTryBlock env cl a headless browser contextOptions saveToFile outputPath ?s1))))))
                (BrowserClose browser) = None"
  proof -
    let ?h2 = "snd (htmlTryBlock env cl a headless browser contextOptions saveToFile outputPath ?s1)"
    from t have "htmlTryBlock env cl a headless browser contextOptions saveToFile outputPath ?s1
        = (Inl (Thrown e), ?h2)"
      by (cases "htmlTryBlock env cl a headless browser contextOptions saveToFile outputPath ?s1") simp
    then have body: "performSearchAndGetHtmlBody env cl a headless saveToFile outputPath s =
        htmlCatchBlock env cl a browser e ?h2"
      by (simp add: htmlBody_prepared [OF p] tryCatch_Thrown)
    from c show ?thesis
      by (simp add: body htmlCatchBlock_run callExt_def)
  qed
  show "let s1 = snd (prepareBrowser env cl a headless s);
           s2 = snd (tryBlock env cl a headless browser provided contextOptions s1);
           h2 = snd (htmlTryBlock env cl a headless browser contextOptions saveToFile outputPath s1)
       in (fst (tryBlock env cl a headless browser provided contextOptions s1) = Inl (Thrown e) \<and>
           (provided \<or>
            throws env (length (trace (snd (saveBlock env cl a s2)))) (BrowserClose browser) = None)
           \<longrightarrow>
           (\<exists>s'. performSearch env cl (a # rest) headless s =
                   Some (Returned \<lparr> query = searchQuery cl,
                            results = [\<lparr> title = failedTitle, link = [],
                                         snippet = failedSnippetPrefix @ e \<rparr>] \<rparr>, s'))) \<and>
          (fst (htmlTryBlock env cl a headless browser contextOptions saveToFile outputPath s1)
             = Inl (Thrown e) \<and>
           throws env (length (trace (snd (saveBlock env cl a h2)))) (BrowserClose browser) = None
           \<longrightarrow>
           (\<exists>s'. performSearchAndGetHtml env cl (a # rest) headless saveToFile outputPath s =
                   Some (Raised (htmlFailedPrefix @ e), s')))"
    unfolding Let_def using search markup by blast
qed

theorem errors_before_and_inside_try_witness:
  "(\<exists>s'. performSearch exampleEnv exampleClosure [challengeAttempt] False exampleSys =
      Some (Returned \<lparr> query = ''isabelle'',
               results = [\<lparr> title = failedTitle, link = [],
                            snippet = failedSnippetPrefix @ errorSearchBox \<rparr>] \<rparr>, s')) \<and>
   (\<exists>s'. performSearchAndGetHtml exampleEnv exampleClosure [challengeAttempt] False False None
            exampleSys = Some (Raised (htmlFailedPrefix @ errorSearchBox), s'))"
proof -
  have p: "fst (prepareBrowser exampleEnv exampleClosure challengeAttempt False exampleSys)
      = Inr (1, False, exampleContext)"
    by code_simp
  have t: "fst (tryBlock exampleEnv exampleClosure challengeAttempt False 1 False exampleContext
      (snd (prepareBrowser exampleEnv exampleClosure challengeAttempt False exampleSys)))
      = Inl (Thrown errorSearchBox)"
    by code_simp
  have h: "fst (htmlTryBlock exampleEnv exampleClosure challengeAttempt False 1 exampleContext False None
      (snd (prepareBrowser exampleEnv exampleClosure challengeAttempt False exampleSys)))
      = Inl (Thrown errorSearchBox)"
    by code_simp
  have quiet: "throws exampleEnv n c = None" for n c
    by (simp add: exampleEnv_def)
  have q: "searchQuery exampleClosure = ''isabelle''"
    by (simp add: exampleClosure_def)
  from errors_before_and_inside_try [of exampleEnv exampleClosure challengeAttempt False exampleSys
      errorSearchBox "[]" False None 1 False exampleContext] p t h quiet q
  show ?thesis
    by (simp add: Let_def)
qed




section \<open>Claims about identity reuse\<close>

text \<open>
  Claim C10. The stored fingerprint file is read only when the session state file
  exists. When the session state file is absent, loading leaves the state as it is: no
  file is read, whatever the fingerprint file holds, and savedState stays empty; nor
  does the rest of the run read a file. Resolving the context options then generates
  the identity of the host and puts it into savedState, and unless persistence is
  disabled it replaces the stored one at the end of the run: when the calls that set
  up the browser and the calls of the save block do not throw, the fingerprint file
  holds a SavedState with the fresh identity afterwards.
  When the session state file exists and the fingerprint file holds a stored
  SavedState that can be read, that stored state is loaded. This holds for googleSearch
  and for getGoogleSearchPageHtml.
\<close>

theorem fingerprint_reuse_needs_state_file:
  "(\<not> existsSync s (stateFileOf options) \<longrightarrow>
      loadSavedState env (stateFileOf options) (fingerprintFileOf options)
          (s\<lparr> savedState := \<lparr> fingerprint = None, googleDomain = None \<rparr> \<rparr>)
        = (None, s\<lparr> savedState := \<lparr> fingerprint = None, googleDomain = None \<rparr> \<rparr>) \<and>
      (\<forall>cl a. resolveContextOptions env cl a
                (s\<lparr> savedState := \<lparr> fingerprint = None, googleDomain = None \<rparr> \<rparr>)
          = (Inr (contextOf ''Desktop Chrome'' (freshIdentity env cl)),
             s\<lparr> savedState := \<lparr> fingerprint = Some (freshIdentity env cl), googleDomain = None \<rparr> \<rparr>)) \<and>
      (googleSearch env q options browserArg attempts s = Some (r, s') \<longrightarrow>
         (\<exists>cs. trace s' = trace s @ cs \<and> list_all (\<lambda>c. \<not> readsFile c) cs) \<and>
         (opt_noSaveState options \<noteq> Some True \<and> setupCallsSucceed env \<and>
          saveCallsSucceed env (searchClosure q options browserArg None) \<longrightarrow>
            (\<exists>st. files s' (fingerprintFileOf options) = Some (SavedJson st) \<and>
                  fingerprint st = Some (freshIdentity env (searchClosure q options browserArg None))))) \<and>
      (getGoogleSearchPageHtml env q options saveToFile outputPath attempts s = Some (r2, s2) \<longrightarrow>
         (\<exists>cs. trace s2 = trace s @ cs \<and> list_all (\<lambda>c. \<not> readsFile c) cs) \<and>
         (opt_noSaveState options \<noteq> Some True \<and> setupCallsSucceed env \<and>
          saveCallsSucceed env (htmlClosure q options None) \<longrightarrow>
            (\<exists>st. files s2 (fingerprintFileOf options) = Some (SavedJson st) \<and>
                  fingerprint st = Some (freshIdentity env (htmlClosure q options None)))))) \<and>
   (existsSync s (stateFileOf options) \<and>
    files s (fingerprintFileOf options) = Some (SavedJson stored) \<and>
    throws env (length (trace s)) (ReadFileSync (fingerprintFileOf options)) = None \<longrightarrow>
      savedState (snd (loadSavedState env (stateFileOf options) (fingerprintFileOf options)
          (s\<lparr> savedState := \<lparr> fingerprint = None, googleDomain = None \<rparr> \<rparr>))) = stored)"
proof (intro conjI impI)
  let ?s0 = "s\<lparr> savedState := \<lparr> fingerprint = None, googleDomain = None \<rparr> \<rparr>"
  let ?g0 = "s\<lparr> savedState := \<lparr> fingerprint = None, googleDomain = None \<rparr>,
                 savedStateIsNull := False \<rparr>"
  assume absent: "\<not> existsSync s (stateFileOf options)"
  then have "\<not> existsSync ?s0 (stateFileOf options)"
    by (simp add: existsSync_def)
  then show "loadSavedState env (stateFileOf options) (fingerprintFileOf options) ?s0 = (None, ?s0)"
    by (rule loadSavedState_absent)
  from absent have "\<not> existsSync ?g0 (stateFileOf options)"
    by (simp add: existsSync_def)
  then have load: "loadSavedState env (stateFileOf options) (fingerprintFileOf options) ?g0 = (None, ?g0)"
    by (rule loadSavedState_absent)
  show "\<forall>cl a. resolveContextOptions env cl a ?s0
          = (Inr (contextOf ''Desktop Chrome'' (freshIdentity env cl)),
             s\<lparr> savedState := \<lparr> fingerprint = Some (freshIdentity env cl), googleDomain = None \<rparr> \<rparr>)"
    by (simp add: resolveContextOptions_fresh)
  {
    assume run: "googleSearch env q options browserArg attempts s = Some (r, s')"
    let ?cl = "searchClosure q options browserArg None"
    from run load have ps: "performSearch env ?cl attempts True ?g0 = Some (r, s')"
      by (simp add: googleSearch_def Let_def)
    from performSearch_noRead [OF ps]
    show "\<exists>cs. trace s' = trace s @ cs \<and> list_all (\<lambda>c. \<not> readsFile c) cs"
      by simp
    assume h: "opt_noSaveState options \<noteq> Some True \<and> setupCallsSucceed env \<and> saveCallsSucceed env ?cl"
    then have on: "\<not> noSaveState ?cl"
      by (cases "opt_noSaveState options") (auto simp: searchClosure_def withDefault_def)
    have "files s' (fingerprintFile ?cl) = Some (SavedJson (savedState s')) \<and>
          fingerprint (savedState s') = Some (freshIdentity env ?cl)"
      using h by (intro performSearch_saves_identity [OF on _ _ _ _ ps]) simp_all
    then show "\<exists>st. files s' (fingerprintFileOf options) = Some (SavedJson st) \<and>
                  fingerprint st = Some (freshIdentity env ?cl)"
      by (auto simp: searchClosure_def)
  }
  {
    assume run: "getGoogleSearchPageHtml env q options saveToFile outputPath attempts s = Some (r2, s2)"
    let ?cl = "htmlClosure q options None"
    from run load have ps: "performSearchAndGetHtml env ?cl attempts True saveToFile outputPath ?g0
        = Some (r2, s2)"
      by (simp add: getGoogleSearchPageHtml_def Let_def)
    from performSearchAndGetHtml_noRead [OF ps]
    show "\<exists>cs. trace s2 = trace s @ cs \<and> list_all (\<lambda>c. \<not> readsFile c) cs"
      by simp
    assume h: "opt_noSaveState options \<noteq> Some True \<and> setupCallsSucceed env \<and> saveCallsSucceed env ?cl"
    then have on: "\<not> noSaveState ?cl"
      by (cases "opt_noSaveState options") (auto simp: htmlClosure_def searchClosure_def withDefault_def)
    have "files s2 (fingerprintFile ?cl) = Some (SavedJson (savedState s2)) \<and>
          fingerprint (savedState s2) = Some (freshIdentity env ?cl)"
      using h by (intro performSearchAndGetHtml_saves_identity [OF on _ _ _ _ ps]) simp_all
    then show "\<exists>st. files s2 (fingerprintFileOf options) = Some (SavedJson st) \<and>
                  fingerprint st = Some (freshIdentity env ?cl)"
      by (auto simp: htmlClosure_def searchClosure_def)
  }
next
  let ?s0 = "s\<lparr> savedState := \<lparr> fingerprint = None, googleDomain = None \<rparr> \<rparr>"
  assume h: "existsSync s (stateFileOf options) \<and>
    files s (fingerprintFileOf options) = Some (SavedJson stored) \<and>
    throws env (length (trace s)) (ReadFileSync (fingerprintFileOf options)) = None"
  then have "existsSync ?s0 (stateFileOf options)"
    and "files ?s0 (fingerprintFileOf options) = Some (SavedJson stored)"
    and "throws env (length (trace ?s0)) (ReadFileSync (fingerprintFileOf options)) = None"
    by (simp_all add: existsSync_def)
  then show "savedState (snd (loadSavedState env (stateFileOf options) (fingerprintFileOf options) ?s0))
      = stored"
    by (rule loadSavedState_present(2))
qed

theorem fingerprint_reuse_needs_state_file_witness:
  "files fingerprintOnlySys ''./browser-state-fingerprint.json'' = Some (SavedJson staleState) \<and>
   fingerprint staleState \<noteq> Some exampleIdentity \<and>
   (\<exists>r s' st. googleSearch exampleEnv ''isabelle'' defaultOptions None
                  [challengeAttempt, challengeAttempt] fingerprintOnlySys = Some (r, s') \<and>
               list_all (\<lambda>c. \<not> readsFile c) (trace s') \<and>
               files s' ''./browser-state-fingerprint.json'' = Some (SavedJson st) \<and>
               fingerprint st = Some exampleIdentity) \<and>
   savedState (snd (loadSavedState exampleEnv ''./browser-state.json''
       ''./browser-state-fingerprint.json''
       (bothFilesSys\<lparr> savedState := \<lparr> fingerprint = None, googleDomain = None \<rparr> \<rparr>))) = staleState"
proof -
  have names: "stateFileOf defaultOptions = ''./browser-state.json''"
    "fingerprintFileOf defaultOptions = ''./browser-state-fingerprint.json''"
    by (simp_all add: stateFileOf_def fingerprintFileOf_def defaultOptions_def withDefault_def)
  have stale: "files fingerprintOnlySys ''./browser-state-fingerprint.json'' = Some (SavedJson staleState)"
    "fingerprint staleState \<noteq> Some exampleIdentity"
    by (simp_all add: fingerprintOnlySys_def exampleSys_def staleState_def exampleIdentity_def)
  have absent: "\<not> existsSync fingerprintOnlySys (stateFileOf defaultOptions)"
    by (simp add: names existsSync_def fingerprintOnlySys_def exampleSys_def)
  have enabled: "opt_noSaveState defaultOptions \<noteq> Some True"
    by (simp add: defaultOptions_def)
  have quiet: "setupCallsSucceed exampleEnv"
    "saveCallsSucceed exampleEnv (searchClosure ''isabelle'' defaultOptions None None)"
    by (simp_all add: setupCallsSucceed_def saveCallsSucceed_def exampleEnv_def)
  have fresh: "freshIdentity exampleEnv (searchClosure ''isabelle'' defaultOptions None None)
      = exampleIdentity"
    by (simp add: freshIdentity_def searchClosure_def defaultOptions_def withDefault_def exampleEnv_def
        getHostMachineConfig_def timezoneOfOffset_def colorSchemeOfHour_def exampleIdentity_def)
  have start: "trace fingerprintOnlySys = []"
    by (simp add: fingerprintOnlySys_def exampleSys_def)
  obtain r s' where run: "googleSearch exampleEnv ''isabelle'' defaultOptions None
      [challengeAttempt, challengeAttempt] fingerprintOnlySys = Some (r, s')"
    using googleSearch_returns by blast
  from fingerprint_reuse_needs_state_file [of fingerprintOnlySys defaultOptions exampleEnv
      "''isabelle''" None "[challengeAttempt, challengeAttempt]" r s'] absent run enabled quiet
  have "list_all (\<lambda>c. \<not> readsFile c) (trace s')"
    and "\<exists>st. files s' ''./browser-state-fingerprint.json'' = Some (SavedJson st) \<and>
              fingerprint st = Some exampleIdentity"
    by (simp_all add: names fresh start)
  moreover have "savedState (snd (loadSavedState exampleEnv ''./browser-state.json''
       ''./browser-state-fingerprint.json''
       (bothFilesSys\<lparr> savedState := \<lparr> fingerprint = None, googleDomain = None \<rparr> \<rparr>))) = staleState"
    using fingerprint_reuse_needs_state_file [of bothFilesSys defaultOptions exampleEnv _ _ _ _ _ _ _ _ _
        staleState]
    by (simp add: names existsSync_def bothFilesSys_def exampleSys_def exampleEnv_def)
  ultimately show ?thesis
    using stale run by blast
qed

section \<open>Further properties of the escalation\<close>

text \<open>
  No browser that exists when googleSearch is called is closed by it, whatever the
  page, the environment and the options do: the calls googleSearch adds to the trace
  close only browsers it launched itself. In particular the browser supplied by the
  caller is never closed.
\<close>

theorem existing_browsers_never_closed:
  assumes "ext < nextBrowser s"
    and "googleSearch env q options browserArg attempts s = Some (r, s')"
  shows "\<exists>cs. trace s' = trace s @ cs \<and> BrowserClose ext \<notin> set cs"
proof -
  let ?s0 = "s\<lparr> savedState := \<lparr> fingerprint = None, googleDomain = None \<rparr>,
                 savedStateIsNull := False \<rparr>"
  let ?l = "loadSavedState env (stateFileOf options) (fingerprintFileOf options) ?s0"
  from loadSavedState_trace [of env "stateFileOf options" "fingerprintFileOf options" ?s0]
  obtain cs where nb: "nextBrowser (snd ?l) = nextBrowser s"
    and cs: "trace (snd ?l) = trace s @ cs" "set cs \<subseteq> {ReadFileSync (fingerprintFileOf options)}"
    by auto
  from assms(2) have run: "performSearch env (searchClosure q options browserArg (fst ?l)) attempts
      True (snd ?l) = Some (r, s')"
    by (simp add: googleSearch_def Let_def)
  from assms(1) nb have "ext < nextBrowser (snd ?l)" by simp
  from performSearch_never_closes_existing [OF this run]
  obtain ds where "trace s' = trace (snd ?l) @ ds" "BrowserClose ext \<notin> set ds" by blast
  with cs have "trace s' = trace s @ (cs @ ds) \<and> BrowserClose ext \<notin> set (cs @ ds)" by auto
  then show ?thesis by blast
qed

theorem existing_browsers_never_closed_witness:
  "\<exists>r s' cs. googleSearch exampleEnv ''isabelle'' defaultOptions (Some 0)
                 [challengeAttempt, challengeAttempt] exampleSys = Some (r, s') \<and>
              trace s' = cs \<and> BrowserClose 0 \<notin> set cs"
proof -
  obtain r s' where run: "googleSearch exampleEnv ''isabelle'' defaultOptions (Some 0)
      [challengeAttempt, challengeAttempt] exampleSys = Some (r, s')"
    using googleSearch_returns by blast
  have "0 < nextBrowser exampleSys" by (simp add: exampleSys_def)
  from existing_browsers_never_closed [OF this run]
  have "BrowserClose 0 \<notin> set (trace s')" by (auto simp: exampleSys_def)
  with run show ?thesis by blast
qed

text \<open>
  One escalation at most: performSearch calls itself only from a run in headless mode
  and then runs in headed mode, so both operations return (a response or an error)
  when observations for two runs are at hand.
\<close>

theorem two_runs_suffice:
  "(\<exists>r s'. googleSearch env q options browserArg (a # b # rest) s = Some (r, s')) \<and>
   (\<exists>r s'. getGoogleSearchPageHtml env q options saveToFile outputPath (a # b # rest) s
              = Some (r, s'))"
  using googleSearch_returns getGoogleSearchPageHtml_returns by blast

section \<open>A fingerprint file that holds null\<close>

text \<open>
  When the session file exists and the fingerprint file holds the JSON text null,
  JSON.parse succeeds and savedState is null. The first read of
  savedState.fingerprint (in getDeviceConfig, called before the try block) throws a
  TypeError, which googleSearch raises. At that point it has launched its browser,
  and it does not close it.
\<close>

theorem null_fingerprint_file_raises:
  "map_option (\<lambda>(r, s). (r, browserEvents (trace s)))
     (googleSearch exampleEnv ''isabelle'' defaultOptions None [clearAttempt, clearAttempt]
        nullFileSys)
   = Some (Raised nullReadMessage, [Launched True])"
  by code_simp

section \<open>Saving in the markup-fetch operation\<close>

text \<open>
  performSearchAndGetHtml has the structure of performSearch: with persistence
  enabled, a run that has set up its browser, context and page attempts the save
  whether its pipeline throws or returns the markup, and then raises the wrapped error
  or returns the response, provided that closing the browser does not throw; a run
  whose set-up throws raises that error and issues no call of the save block.
\<close>

theorem markup_fetch_saves_inside_try:
  "(\<not> noSaveState cl \<and>
    prepareBrowser env cl a headless s = (Inr (browser, provided, contextOptions), s1) \<and>
    htmlPipeline env cl a headless browser contextOptions saveToFile outputPath s1
      = (Inl (Thrown e), s2) \<longrightarrow>
      (\<exists>r s' cs. performSearchAndGetHtml env cl (a # rest) headless saveToFile outputPath s
                    = Some (r, s') \<and>
                  trace s' = trace s2 @ firstSaveCall env cl s2 # cs \<and>
                  (throws env (length (trace (snd (saveBlock env cl a s2)))) (BrowserClose browser)
                     = None \<longrightarrow>
                   r = Raised (htmlFailedPrefix @ e)))) \<and>
   (\<not> noSaveState cl \<and>
    prepareBrowser env cl a headless s = (Inr (browser, provided, contextOptions), s1) \<and>
    htmlPipeline env cl a headless browser contextOptions saveToFile outputPath s1
      = (Inr response, s2) \<longrightarrow>
      (\<exists>r s' cs. performSearchAndGetHtml env cl (a # rest) headless saveToFile outputPath s
                    = Some (r, s') \<and>
                  trace s' = trace s2 @ firstSaveCall env cl s2 # cs \<and>
                  (throws env (length (trace (snd (saveBlock env cl a s2)))) (BrowserClose browser)
                     = None \<longrightarrow>
                   r = Returned response))) \<and>
   (prepareBrowser env cl a headless s = (Inl (Thrown e), s1) \<longrightarrow>
      performSearchAndGetHtml env cl (a # rest) headless saveToFile outputPath s
        = Some (Raised e, s1) \<and>
      (\<exists>cs. trace s1 = trace s @ cs \<and> list_all (\<lambda>c. \<not> isSaveCall c) cs))"
proof (intro conjI impI)
  assume h: "\<not> noSaveState cl \<and>
    prepareBrowser env cl a headless s = (Inr (browser, provided, contextOptions), s1) \<and>
    htmlPipeline env cl a headless browser contextOptions saveToFile outputPath s1
      = (Inl (Thrown e), s2)"
  then have on: "\<not> noSaveState cl"
    and prep: "prepareBrowser env cl a headless s = (Inr (browser, provided, contextOptions), s1)"
    and pl: "htmlPipeline env cl a headless browser contextOptions saveToFile outputPath s1
      = (Inl (Thrown e), s2)"
    by blast+
  show "\<exists>r s' cs. performSearchAndGetHtml env cl (a # rest) headless saveToFile outputPath s
                    = Some (r, s') \<and>
                  trace s' = trace s2 @ firstSaveCall env cl s2 # cs \<and>
                  (throws env (length (trace (snd (saveBlock env cl a s2)))) (BrowserClose browser)
                     = None \<longrightarrow>
                   r = Raised (htmlFailedPrefix @ e))"
    by (rule performSearchAndGetHtml_saves_on_failure [OF on prep pl])
next
  assume h: "\<not> noSaveState cl \<and>
    prepareBrowser env cl a headless s = (Inr (browser, provided, contextOptions), s1) \<and>
    htmlPipeline env cl a headless browser contextOptions saveToFile outputPath s1
      = (Inr response, s2)"
  then have on: "\<not> noSaveState cl"
    and prep: "prepareBrowser env cl a headless s = (Inr (browser, provided, contextOptions), s1)"
    and pl: "htmlPipeline env cl a headless browser contextOptions saveToFile outputPath s1
      = (Inr response, s2)"
    by blast+
  show "\<exists>r s' cs. performSearchAndGetHtml env cl (a # rest) headless saveToFile outputPath s
                    = Some (r, s') \<and>
                  trace s' = trace s2 @ firstSaveCall env cl s2 # cs \<and>
                  (throws env (length (trace (snd (saveBlock env cl a s2)))) (BrowserClose browser)
                     = None \<longrightarrow>
                   r = Returned response)"
    by (rule performSearchAndGetHtml_saves_on_success [OF on prep pl])
next
  assume prep: "prepareBrowser env cl a headless s = (Inl (Thrown e), s1)"
  show "performSearchAndGetHtml env cl (a # rest) headless saveToFile outputPath s
        = Some (Raised e, s1)"
    by (rule performSearchAndGetHtml_no_save_before_try(1) [OF prep])
  show "\<exists>cs. trace s1 = trace s @ cs \<and> list_all (\<lambda>c. \<not> isSaveCall c) cs"
    by (rule performSearchAndGetHtml_no_save_before_try(2) [OF prep])
qed

theorem markup_fetch_saves_inside_try_witness:
  "(\<exists>s'. performSearchAndGetHtml fullDiskEnv exampleClosure [challengeAttempt] False False None
            exampleSys = Some (Raised (htmlFailedPrefix @ errorSearchBox), s') \<and>
          list_ex isSaveCall (trace s')) \<and>
   (\<exists>s'. performSearchAndGetHtml failingPageEnv exampleClosure [clearAttempt] True False None
            exampleSys = Some (Raised ''page failed'', s') \<and>
          \<not> list_ex isSaveCall (trace s'))"
proof -
  have enabled: "\<not> noSaveState exampleClosure"
    by (simp add: exampleClosure_def)
  have closes: "throws fullDiskEnv n (BrowserClose b) = None" for n b
    by (simp add: fullDiskEnv_def exampleEnv_def)
  have first: "isSaveCall (firstSaveCall env cl s)" for env cl s
    by (simp add: firstSaveCall_def)
  have c: "\<exists>s'. performSearchAndGetHtml fullDiskEnv exampleClosure [challengeAttempt] False False None
            exampleSys = Some (Raised (htmlFailedPrefix @ errorSearchBox), s') \<and>
          list_ex isSaveCall (trace s')"
  proof -
    obtain s1 where prep: "prepareBrowser fullDiskEnv exampleClosure challengeAttempt False exampleSys
        = (Inr (1, False, exampleContext), s1)"
    proof (cases "prepareBrowser fullDiskEnv exampleClosure challengeAttempt False exampleSys")
      case (Pair x s1)
      have "fst (prepareBrowser fullDiskEnv exampleClosure challengeAttempt False exampleSys)
          = Inr (1, False, exampleContext)"
        by code_simp
      with Pair that show ?thesis by simp
    qed
    obtain s2 where pl: "htmlPipeline fullDiskEnv exampleClosure challengeAttempt False 1
        exampleContext False None s1 = (Inl (Thrown errorSearchBox), s2)"
    proof (cases "htmlPipeline fullDiskEnv exampleClosure challengeAttempt False 1 exampleContext
        False None s1")
      case (Pair x s2)
      have "fst (htmlPipeline fullDiskEnv exampleClosure challengeAttempt False 1 exampleContext
          False None
          (snd (prepareBrowser fullDiskEnv exampleClosure challengeAttempt False exampleSys)))
          = Inl (Thrown errorSearchBox)"
        by code_simp
      with prep Pair that show ?thesis by simp
    qed
    from markup_fetch_saves_inside_try [of exampleClosure fullDiskEnv challengeAttempt False
        exampleSys 1 False exampleContext s1 False None errorSearchBox s2 "[]"]
      enabled prep pl closes
    obtain r s' cs where "performSearchAndGetHtml fullDiskEnv exampleClosure [challengeAttempt]
          False False None exampleSys = Some (r, s')"
      and "trace s' = trace s2 @ firstSaveCall fullDiskEnv exampleClosure s2 # cs"
      and "r = Raised (htmlFailedPrefix @ errorSearchBox)"
      by blast
    then show ?thesis by (auto simp: first)
  qed
  have e: "\<exists>s'. performSearchAndGetHtml failingPageEnv exampleClosure [clearAttempt] True False None
            exampleSys = Some (Raised ''page failed'', s') \<and>
          \<not> list_ex isSaveCall (trace s')"
  proof -
    obtain s1 where prep: "prepareBrowser failingPageEnv exampleClosure clearAttempt True exampleSys
        = (Inl (Thrown ''page failed''), s1)"
    proof (cases "prepareBrowser failingPageEnv exampleClosure clearAttempt True exampleSys")
      case (Pair x s1)
      have "fst (prepareBrowser failingPageEnv exampleClosure clearAttempt True exampleSys)
          = Inl (Thrown ''page failed'')"
        by code_simp
      with Pair that show ?thesis by simp
    qed
    have "performSearchAndGetHtml failingPageEnv exampleClosure [clearAttempt] True False None
            exampleSys = Some (Raised ''page failed'', s1) \<and>
          (\<exists>cs. trace s1 = trace exampleSys @ cs \<and> list_all (\<lambda>c. \<not> isSaveCall c) cs)"
      using markup_fetch_saves_inside_try [where env = failingPageEnv and cl = exampleClosure
          and a = clearAttempt and headless = True and s = exampleSys and ?s1.0 = s1
          and e = "''page failed''" and rest = "[]" and saveToFile = False and outputPath = None]
        prep
      by blast
    then show ?thesis
      by (auto simp: exampleSys_def list_ex_iff list_all_iff)
  qed
  from c e show ?thesis by blast
qed


end
